theory Spec2Isabelle
  imports Complex_Main "HOL-Library.Sublist" "HOL-Library.Multiset"
begin

section \<open>JavaScript numbers and the random utilities (domain/random.ts)\<close>

text \<open>
  A JavaScript \<open>number\<close> is either finite or one of \<open>NaN\<close>, \<open>Infinity\<close>,
  \<open>-Infinity\<close>. Finite numbers are idealised as reals: rounding of doubles is not
  modelled. Counters are natural numbers, digit counts are integers.
\<close>

datatype jsnum = Num real | NaN | PosInfinity | NegInfinity

fun isFinite :: "jsnum \<Rightarrow> bool" where
  "isFinite (Num x) = True"
| "isFinite _ = False"

text \<open>\<open>Math.trunc\<close>: rounding towards zero.\<close>

definition trunc :: "real \<Rightarrow> int" where
  "trunc x = (if 0 \<le> x then \<lfloor>x\<rfloor> else \<lceil>x\<rceil>)"

text \<open>
  \<open>clampInt(n, min, max)\<close>. Every call site passes the literals 1 and 50 as bounds,
  so the bounds are integers here.
\<close>

fun clampInt :: "jsnum \<Rightarrow> int \<Rightarrow> int \<Rightarrow> int" where
  "clampInt (Num x) mn mx = min mx (max mn (trunc x))"
| "clampInt _ mn mx = mn"

text \<open>
  \<open>Math.random()\<close> is a value \<open>r\<close> with \<open>0 \<le> r < 1\<close>. A handler that draws several
  values reads them from a source \<open>g :: nat \<Rightarrow> real\<close>: its \<open>k\<close>-th draw is \<open>g k\<close>.
\<close>

type_synonym rng = "nat \<Rightarrow> real"

definition wf_rng :: "rng \<Rightarrow> bool" where
  "wf_rng g = (\<forall>i. 0 \<le> g i \<and> g i < 1)"

definition shift :: "nat \<Rightarrow> rng \<Rightarrow> rng" where
  "shift k g = (\<lambda>i. g (i + k))"

text \<open>The source, of random draws or of clock readings, that always yields the same value.\<close>

definition constRng :: "real \<Rightarrow> nat \<Rightarrow> real" where
  "constRng r = (\<lambda>i. r)"

text \<open>\<open>randomInt(min, max)\<close>, with the value of \<open>Math.random()\<close> as first argument.\<close>

definition randomInt :: "real \<Rightarrow> int \<Rightarrow> int \<Rightarrow> int" where
  "randomInt r mn mx =
     (let a = min mn mx; b = max mn mx
      in a + \<lfloor>r * real_of_int (b - a + 1)\<rfloor>)"

text \<open>
  \<open>pickRandom(list)\<close>. An index outside the list gives \<open>undefined\<close> in the source, which
  the handler's guard \<open>!target\<close> treats like the empty string; it is the empty string here.
\<close>

definition pickRandom :: "real \<Rightarrow> string list \<Rightarrow> string" where
  "pickRandom r xs =
     (let i = \<lfloor>r * real (length xs)\<rfloor>
      in if 0 \<le> i \<and> nat i < length xs then xs ! nat i else [])"

section \<open>The numeric target generator (domain/digits.ts)\<close>

record DigitsSettings =
  minIntDigits :: jsnum
  maxIntDigits :: jsnum
  enableSign :: bool
  enableDecimal :: bool
  minFracDigits :: jsnum
  maxFracDigits :: jsnum

text \<open>\<open>String(n)\<close> for an integer \<open>n\<close>: its decimal numeral.\<close>

definition digitChar :: "nat \<Rightarrow> char" where
  "digitChar d = ''0123456789'' ! d"

fun natString :: "nat \<Rightarrow> string" where
  "natString n = (if n < 10 then [digitChar n] else natString (n div 10) @ [digitChar (n mod 10)])"

declare natString.simps [simp del]

definition String :: "int \<Rightarrow> string" where
  "String n = (if n < 0 then CHR ''-'' # natString (nat (- n)) else natString (nat n))"

text \<open>
  The loop of \<open>buildDigitsString\<close>: \<open>i\<close> is the loop counter, \<open>chars\<close> the array built
  so far; the \<open>i\<close>-th iteration takes the \<open>i\<close>-th draw for its \<open>digit\<close>.
\<close>

definition digit :: "rng \<Rightarrow> bool \<Rightarrow> nat \<Rightarrow> int" where
  "digit g firstNonZero i =
     (if i = 0 \<and> firstNonZero then randomInt (g i) 1 9 else randomInt (g i) 0 9)"

function buildLoop :: "rng \<Rightarrow> bool \<Rightarrow> nat \<Rightarrow> nat \<Rightarrow> string list \<Rightarrow> string list" where
  "buildLoop g firstNonZero n i chars =
     (if i < n
      then buildLoop g firstNonZero n (Suc i) (chars @ [String (digit g firstNonZero i)])
      else chars)"
  by pat_completeness auto
termination
  by (relation "measure (\<lambda>(g, f, n, i, chars). n - i)") auto

declare buildLoop.simps [simp del]

text \<open>The number of iterations, \<open>Math.max(1, Math.trunc(len))\<close>, for an integer \<open>len\<close>.\<close>

definition loopCount :: "int \<Rightarrow> nat" where
  "loopCount len = nat (max 1 len)"

definition buildDigitsString :: "rng \<Rightarrow> int \<Rightarrow> bool \<Rightarrow> string" where
  "buildDigitsString g len firstNonZero = concat (buildLoop g firstNonZero (loopCount len) 0 [])"

text \<open>
  \<open>generateDigitsTarget\<close>. The draws, in the order of the source: the integer length,
  the decimal decision, the sign decision, the sign itself (only when a sign is
  written), the integer digits, and for a decimal the fraction length and its digits.
\<close>

definition generateDigitsTarget :: "DigitsSettings \<Rightarrow> rng \<Rightarrow> string" where
  "generateDigitsTarget settings g =
     (let minInt = clampInt (minIntDigits settings) 1 50;
          maxInt = clampInt (maxIntDigits settings) 1 50;
          minFrac = clampInt (minFracDigits settings) 1 50;
          maxFrac = clampInt (maxFracDigits settings) 1 50;
          intLen = randomInt (g 0) minInt maxInt;
          decimalRatio = (if enableDecimal settings then 3 / 10 else 0);
          signRatio = (if enableSign settings then 3 / 10 else 0);
          withDecimal = (g 1 < decimalRatio);
          withSign = (g 2 < signRatio);
          sign = (if withSign then (if g 3 < 1 / 2 then ''+'' else ''-'') else '''');
          k = (if withSign then 4 else 3)
      in if \<not> withDecimal then sign @ buildDigitsString (shift k g) intLen True
         else (let intPart = buildDigitsString (shift k g) intLen False;
                   k2 = k + loopCount intLen;
                   fracLen = randomInt (g k2) minFrac maxFrac;
                   fracPart = buildDigitsString (shift (Suc k2) g) fracLen False
               in sign @ intPart @ ''.'' @ fracPart))"

section \<open>Catalogs and keys (domain/symbols.ts, domain/keyboard.ts)\<close>

datatype Mode = Single | Combo | Digits

definition SINGLE_SYMBOLS :: "string list" where
  "SINGLE_SYMBOLS =
     [''('', '')'', ''['', '']'', ''{'', ''}'', ''<'', ''>'',
      '','', ''.'', '':'', '';'', ''!'', ''?'',
      [CHR 0x27], [CHR 0x22],
      ''+'', ''-'', ''*'', ''/'', ''='',
      ''_'', ''@'', ''#'', ''$'', ''%'', ''^'', ''&'', ''|'', [CHR 0x5C], ''~'', [CHR 0x60]]"

definition COMBOS :: "string list" where
  "COMBOS =
     [''=>'', ''->'', ''<-'', ''!='', ''=='', ''==='', ''<='', ''>='',
      ''&&'', ''||'', ''??'', ''?:'',
      ''::'', ''->>'', ''?.'', ''??='',
      ''..'', ''...'',
      ''//'', ''/*'', ''*/'',
      ''</'', ''/>'']"

text \<open>
  A JavaScript string is modelled as the list of its code units, of type \<open>char\<close>; the
  catalogs and the generated literals are ASCII. Its \<open>length\<close> is the length of the list,
  \<open>slice(0, -1)\<close> is \<open>butlast\<close>, \<open>startsWith\<close> is \<open>prefix\<close>.
  A \<open>Record<string, boolean>\<close> is a map from strings to booleans.
\<close>

type_synonym enabledMap = "string \<rightharpoonup> bool"

definition initEnabledMap :: "string list \<Rightarrow> enabledMap" where
  "initEnabledMap list = map_of (map (\<lambda>item. (item, True)) list)"

definition normalizeKey :: "string \<Rightarrow> string" where
  "normalizeKey k =
     (if k = ''Enter'' \<or> k = ''Tab'' \<or> k = ''Escape'' then k
      else if k = ''Dead'' then []
      else k)"

record KeyboardEvent =
  key :: string
  metaKey :: bool
  ctrlKey :: bool
  altKey :: bool

section \<open>The trainer (hooks/useTrainer)\<close>

record Stat =
  attempts :: nat
  correct :: nat
  totalMs :: real

record RankedStat = Stat +
  item :: string
  acc :: real
  avg :: "real option"

text \<open>
  The cells of the hook: one field per \<open>useState\<close>, and \<open>shownAt\<close> for the ref.
  \<open>basePool\<close>, \<open>pool\<close>, \<open>accuracy\<close> and \<open>ranked\<close> are computed from them.
\<close>

record Trainer =
  mode :: Mode
  isRunning :: bool
  enabledSingle :: enabledMap
  enabledCombo :: enabledMap
  digitsSettings :: DigitsSettings
  target :: string
  typed :: string
  progress :: string
  totalAttempts :: nat
  totalCorrect :: nat
  totalMiss :: nat
  totalBackspace :: nat
  lastTimeMs :: "real option"
  statsByItem :: "string \<rightharpoonup> Stat"
  shownAt :: real

text \<open>
  \<open>nowMs()\<close> reads a clock. A handler that reads it several times takes its readings
  from a source \<open>clk :: nat \<Rightarrow> real\<close>, the \<open>k\<close>-th reading being \<open>clk k\<close>.
\<close>

type_synonym clock = "nat \<Rightarrow> real"

definition basePool :: "Trainer \<Rightarrow> string list" where
  "basePool s =
     (if mode s = Digits then []
      else if mode s = Single then SINGLE_SYMBOLS else COMBOS)"

definition enabledMapOf :: "Trainer \<Rightarrow> enabledMap" where
  "enabledMapOf s = (if mode s = Single then enabledSingle s else enabledCombo s)"

definition pool :: "Trainer \<Rightarrow> string list" where
  "pool s = filter (\<lambda>item. enabledMapOf s item \<noteq> Some False) (basePool s)"

definition initialDigitsSettings :: DigitsSettings where
  "initialDigitsSettings =
     \<lparr>minIntDigits = Num 3, maxIntDigits = Num 7, enableSign = False,
      enableDecimal = False, minFracDigits = Num 1, maxFracDigits = Num 4\<rparr>"

text \<open>The state after the first render: \<open>g 0\<close> picks the first target, \<open>clk 0\<close> is the time.\<close>

definition initialTrainer :: "rng \<Rightarrow> clock \<Rightarrow> Trainer" where
  "initialTrainer g clk =
     \<lparr>mode = Single, isRunning = True,
      enabledSingle = initEnabledMap SINGLE_SYMBOLS,
      enabledCombo = initEnabledMap COMBOS,
      digitsSettings = initialDigitsSettings,
      target = pickRandom (g 0) SINGLE_SYMBOLS, typed = [], progress = [],
      totalAttempts = 0, totalCorrect = 0, totalMiss = 0, totalBackspace = 0,
      lastTimeMs = None, statsByItem = Map.empty, shownAt = clk 0\<rparr>"

text \<open>The optional argument of \<open>resetQuestion\<close>; an absent field is \<open>None\<close>.\<close>

record Overrides =
  ovEnabledSingle :: "enabledMap option"
  ovEnabledCombo :: "enabledMap option"
  ovDigitsSettings :: "DigitsSettings option"

definition noOverrides :: Overrides where
  "noOverrides = \<lparr>ovEnabledSingle = None, ovEnabledCombo = None, ovDigitsSettings = None\<rparr>"

definition resetQuestion :: "Mode \<Rightarrow> Overrides \<Rightarrow> rng \<Rightarrow> clock \<Rightarrow> Trainer \<Rightarrow> Trainer" where
  "resetQuestion nextMode overrides g clk s =
     (let effectiveDigitsSettings =
            (case ovDigitsSettings overrides of Some d \<Rightarrow> d | None \<Rightarrow> digitsSettings s);
          effectiveEnabledSingle =
            (case ovEnabledSingle overrides of Some m \<Rightarrow> m | None \<Rightarrow> enabledSingle s);
          effectiveEnabledCombo =
            (case ovEnabledCombo overrides of Some m \<Rightarrow> m | None \<Rightarrow> enabledCombo s)
      in if nextMode = Digits
         then s\<lparr>target := generateDigitsTarget effectiveDigitsSettings g,
                typed := [], progress := [], shownAt := clk 0\<rparr>
         else (let list = (if nextMode = Single then SINGLE_SYMBOLS else COMBOS);
                   enabled = (if nextMode = Single then effectiveEnabledSingle
                              else effectiveEnabledCombo);
                   nextPool = filter (\<lambda>item. enabled item \<noteq> Some False) list
               in s\<lparr>target := (if nextPool = [] then [] else pickRandom (g 0) nextPool),
                    typed := [], progress := [], shownAt := clk 0\<rparr>))"

definition nextQuestion :: "rng \<Rightarrow> clock \<Rightarrow> Trainer \<Rightarrow> Trainer" where
  "nextQuestion g clk s =
     (if mode s = Digits then resetQuestion Digits noOverrides g clk s
      else if pool s = [] then s
      else s\<lparr>target := pickRandom (g 0) (pool s), typed := [], progress := [],
             shownAt := clk 0\<rparr>)"

text \<open>
  \<open>bumpStat\<close> on the statistics map; \<open>elapsedMs\<close> is \<open>None\<close> when not passed.
  \<open>current prev it\<close> is its local \<open>current\<close>: \<open>prev[item] ?? { attempts: 0, correct: 0, totalMs: 0 }\<close>.
\<close>

definition current :: "(string \<rightharpoonup> Stat) \<Rightarrow> string \<Rightarrow> Stat" where
  "current prev it =
     (case prev it of Some c \<Rightarrow> c | None \<Rightarrow> \<lparr>attempts = 0, correct = 0, totalMs = 0\<rparr>)"

definition bumpStat :: "string \<Rightarrow> bool \<Rightarrow> real option \<Rightarrow> (string \<rightharpoonup> Stat) \<Rightarrow> (string \<rightharpoonup> Stat)" where
  "bumpStat it isCorrect elapsedMs prev =
     (let next = \<lparr>attempts = attempts (current prev it) + 1,
                  correct = correct (current prev it) + (if isCorrect then 1 else 0),
                  totalMs = totalMs (current prev it) +
                    (case elapsedMs of Some e \<Rightarrow> (if isCorrect then e else 0) | None \<Rightarrow> 0)\<rparr>
      in prev(it \<mapsto> next))"

definition accuracy :: "Trainer \<Rightarrow> real" where
  "accuracy s =
     (if totalAttempts s = 0 then 0
      else (real (totalCorrect s) / real (totalAttempts s)) * 100)"

text \<open>
  \<open>ranked\<close>. Its argument is the list \<open>Object.entries(statsByItem)\<close>, whose order is
  the engine's property order. \<open>Array.prototype.sort\<close> is a stable sort by the
  comparator; \<open>sortBy\<close> is stable insertion sort, \<open>cmp a b \<le> 0\<close> keeps \<open>a\<close> first.
\<close>

definition rankedRow :: "string \<times> Stat \<Rightarrow> RankedStat" where
  "rankedRow e =
     (let s = snd e;
          acc = (if attempts s = 0 then 0 else (real (correct s) / real (attempts s)) * 100);
          avg = (if correct s = 0 then None else Some (totalMs s / real (correct s)))
      in \<lparr>attempts = attempts s, correct = correct s, totalMs = totalMs s,
          item = fst e, acc = acc, avg = avg\<rparr>)"

definition rankedCmp :: "RankedStat \<Rightarrow> RankedStat \<Rightarrow> real" where
  "rankedCmp a b =
     (if acc a \<noteq> acc b then acc a - acc b
      else real (attempts b) - real (attempts a))"

fun insertBy :: "('a \<Rightarrow> 'a \<Rightarrow> real) \<Rightarrow> 'a \<Rightarrow> 'a list \<Rightarrow> 'a list" where
  "insertBy cmp x [] = [x]"
| "insertBy cmp x (y # ys) = (if cmp x y \<le> 0 then x # y # ys else y # insertBy cmp x ys)"

definition sortBy :: "('a \<Rightarrow> 'a \<Rightarrow> real) \<Rightarrow> 'a list \<Rightarrow> 'a list" where
  "sortBy cmp xs = foldr (insertBy cmp) xs []"

definition ranked :: "(string \<times> Stat) list \<Rightarrow> RankedStat list" where
  "ranked entries = take 10 (sortBy rankedCmp (map rankedRow entries))"

text \<open>\<open>entriesOf m es\<close>: the list \<open>es\<close> enumerates the own properties of the object \<open>m\<close>.\<close>

definition entriesOf :: "(string \<rightharpoonup> Stat) \<Rightarrow> (string \<times> Stat) list \<Rightarrow> bool" where
  "entriesOf m es = (distinct (map fst es) \<and> map_of es = m)"

subsection \<open>Actions\<close>

definition setModeAndReset :: "Mode \<Rightarrow> rng \<Rightarrow> clock \<Rightarrow> Trainer \<Rightarrow> Trainer" where
  "setModeAndReset nextMode g clk s = resetQuestion nextMode noOverrides g clk (s\<lparr>mode := nextMode\<rparr>)"

definition toggleRunning :: "Trainer \<Rightarrow> Trainer" where
  "toggleRunning s = s\<lparr>isRunning := \<not> isRunning s\<rparr>"

definition resetAll :: "rng \<Rightarrow> clock \<Rightarrow> Trainer \<Rightarrow> Trainer" where
  "resetAll g clk s =
     resetQuestion (mode s) noOverrides g clk
       (s\<lparr>totalAttempts := 0, totalCorrect := 0, totalMiss := 0, totalBackspace := 0,
          lastTimeMs := None, statsByItem := Map.empty\<rparr>)"

text \<open>The local \<open>normalized\<close> of \<open>setDigitsSettingsAndReset\<close>, after its four adjustments.\<close>

definition normalized :: "DigitsSettings \<Rightarrow> DigitsSettings" where
  "normalized next =
     (let minInt0 = clampInt (minIntDigits next) 1 50;
          maxInt0 = clampInt (maxIntDigits next) 1 50;
          minFrac0 = clampInt (minFracDigits next) 1 50;
          maxFrac0 = clampInt (maxFracDigits next) 1 50;
          minInt1 = min minInt0 maxInt0;
          maxInt1 = max maxInt0 minInt1;
          minFrac1 = min minFrac0 maxFrac0;
          maxFrac1 = max maxFrac0 minFrac1
      in next\<lparr>minIntDigits := Num (real_of_int minInt1),
               maxIntDigits := Num (real_of_int maxInt1),
               minFracDigits := Num (real_of_int minFrac1),
               maxFracDigits := Num (real_of_int maxFrac1)\<rparr>)"

definition setDigitsSettingsAndReset :: "DigitsSettings \<Rightarrow> rng \<Rightarrow> clock \<Rightarrow> Trainer \<Rightarrow> Trainer" where
  "setDigitsSettingsAndReset next g clk s =
     resetQuestion Digits (noOverrides\<lparr>ovDigitsSettings := Some (normalized next)\<rparr>) g clk
       (s\<lparr>digitsSettings := normalized next\<rparr>)"

definition enableAllInCurrentMode :: "rng \<Rightarrow> clock \<Rightarrow> Trainer \<Rightarrow> Trainer" where
  "enableAllInCurrentMode g clk s =
     (if mode s = Digits then s
      else if mode s = Single
      then (let next = initEnabledMap SINGLE_SYMBOLS
            in resetQuestion Single (noOverrides\<lparr>ovEnabledSingle := Some next\<rparr>) g clk
                 (s\<lparr>enabledSingle := next\<rparr>))
      else (let next = initEnabledMap COMBOS
            in resetQuestion Combo (noOverrides\<lparr>ovEnabledCombo := Some next\<rparr>) g clk
                 (s\<lparr>enabledCombo := next\<rparr>)))"

definition disableAllInCurrentMode :: "rng \<Rightarrow> clock \<Rightarrow> Trainer \<Rightarrow> Trainer" where
  "disableAllInCurrentMode g clk s =
     (if mode s = Digits then s
      else (let next = map_of (map (\<lambda>item. (item, False)) (basePool s))
            in if mode s = Single
               then resetQuestion Single (noOverrides\<lparr>ovEnabledSingle := Some next\<rparr>) g clk
                      (s\<lparr>enabledSingle := next\<rparr>)
               else resetQuestion Combo (noOverrides\<lparr>ovEnabledCombo := Some next\<rparr>) g clk
                      (s\<lparr>enabledCombo := next\<rparr>)))"

definition setEnabledForItemInCurrentMode ::
  "string \<Rightarrow> bool \<Rightarrow> rng \<Rightarrow> clock \<Rightarrow> Trainer \<Rightarrow> Trainer" where
  "setEnabledForItemInCurrentMode it enabled g clk s =
     (if mode s = Digits then s
      else if mode s = Single
      then (let next = (enabledSingle s)(it \<mapsto> enabled)
            in resetQuestion Single (noOverrides\<lparr>ovEnabledSingle := Some next\<rparr>) g clk
                 (s\<lparr>enabledSingle := next\<rparr>))
      else (let next = (enabledCombo s)(it \<mapsto> enabled)
            in resetQuestion Combo (noOverrides\<lparr>ovEnabledCombo := Some next\<rparr>) g clk
                 (s\<lparr>enabledCombo := next\<rparr>)))"

subsection \<open>The key handler\<close>

text \<open>
  The handler reads \<open>mode\<close>, \<open>target\<close>, \<open>progress\<close> and \<open>pool\<close> as they were when it was
  installed, which is the state \<open>s\<close> it starts from, and its state setters take effect
  together when it returns, the later call to a setter winning. The model applies the
  setters in call order to the record.

  The completion block, written twice in \<open>onKeyDown\<close> with the same text: the first
  clock reading gives the elapsed time, \<open>nextQuestion\<close> takes the following one.
\<close>

definition completion :: "rng \<Rightarrow> clock \<Rightarrow> Trainer \<Rightarrow> Trainer" where
  "completion g clk s =
     (let elapsed = clk 0 - shownAt s
      in nextQuestion g (shift 1 clk)
           (s\<lparr>lastTimeMs := Some elapsed,
              totalAttempts := totalAttempts s + 1,
              totalCorrect := totalCorrect s + 1,
              statsByItem := bumpStat (target s) True (Some elapsed) (statsByItem s)\<rparr>))"

text \<open>\<open>target[progress.length] ?? ''\<close>.\<close>

definition expectedChar :: "string \<Rightarrow> string \<Rightarrow> string" where
  "expectedChar tgt prog = (if length prog < length tgt then [tgt ! length prog] else [])"

definition onKeyDown :: "KeyboardEvent \<Rightarrow> rng \<Rightarrow> clock \<Rightarrow> Trainer \<Rightarrow> Trainer" where
  "onKeyDown e g clk s =
     (if \<not> isRunning s then s
      else if target s = [] then s
      else if metaKey e \<or> ctrlKey e \<or> altKey e then s
      else if mode s = Digits
      then (if key e = ''Backspace''
            then s\<lparr>totalBackspace := totalBackspace s + 1,
                   typed := butlast (typed s),
                   progress := butlast (progress s)\<rparr>
            else (let k = normalizeKey (key e)
                  in if k = [] then s
                     else if length k \<noteq> 1 then s
                     else if k = expectedChar (target s) (progress s)
                     then (let nextProgress = progress s @ k;
                               s1 = s\<lparr>typed := nextProgress, progress := nextProgress\<rparr>
                           in if nextProgress = target s then completion g clk s1 else s1)
                     else s\<lparr>totalAttempts := totalAttempts s + 1,
                            totalMiss := totalMiss s + 1,
                            statsByItem := bumpStat (target s) False None (statsByItem s)\<rparr>))
      else (let k = normalizeKey (key e)
            in if k = [] then s
               else if length k \<noteq> 1 then s
               else (let s0 = s\<lparr>typed := typed s @ k\<rparr>;
                         nextProgress = progress s @ k
                     in if prefix nextProgress (target s)
                        then (let s1 = s0\<lparr>progress := nextProgress\<rparr>
                              in if nextProgress = target s then completion g clk s1 else s1)
                        else s0\<lparr>totalAttempts := totalAttempts s0 + 1,
                                totalMiss := totalMiss s0 + 1,
                                statsByItem := bumpStat (target s) False None (statsByItem s0),
                                progress := []\<rparr>)))"

subsection \<open>Transitions and reachable states\<close>

text \<open>
  One transition is one handler run to its end. The settings form is rendered, and so
  \<open>setDigitsSettingsAndReset\<close> is called, only in digits mode (App.tsx); the picker's
  actions return at once in digits mode by their own guard.
\<close>

inductive step :: "Trainer \<Rightarrow> Trainer \<Rightarrow> bool" where
  keyDown: "wf_rng g \<Longrightarrow> step s (onKeyDown e g clk s)"
| setMode: "wf_rng g \<Longrightarrow> step s (setModeAndReset m g clk s)"
| toggle: "step s (toggleRunning s)"
| reset: "wf_rng g \<Longrightarrow> step s (resetAll g clk s)"
| setDigits: "mode s = Digits \<Longrightarrow> wf_rng g \<Longrightarrow> step s (setDigitsSettingsAndReset next g clk s)"
| enableAll: "wf_rng g \<Longrightarrow> step s (enableAllInCurrentMode g clk s)"
| disableAll: "wf_rng g \<Longrightarrow> step s (disableAllInCurrentMode g clk s)"
| setEnabled: "wf_rng g \<Longrightarrow> step s (setEnabledForItemInCurrentMode it enabled g clk s)"

inductive reachable :: "Trainer \<Rightarrow> bool" where
  initial: "wf_rng g \<Longrightarrow> reachable (initialTrainer g clk)"
| after: "reachable s \<Longrightarrow> step s s' \<Longrightarrow> reachable s'"

text \<open>A key event with no modifier held whose key is one printable character.\<close>

definition printableKey :: "KeyboardEvent \<Rightarrow> bool" where
  "printableKey e = (length (key e) = 1 \<and> \<not> metaKey e \<and> \<not> ctrlKey e \<and> \<not> altKey e)"

definition backspaceKey :: "KeyboardEvent \<Rightarrow> bool" where
  "backspaceKey e = (key e = ''Backspace'' \<and> \<not> metaKey e \<and> \<not> ctrlKey e \<and> \<not> altKey e)"

subsection \<open>Concrete runs\<close>

text \<open>
  A key pressed alone, and three states reached with every random draw and every clock
  reading equal to 0: the first state (target \<open>(\<close>), the state after choosing combo
  mode (target \<open>=>\<close>) and the state after choosing digits mode (target \<open>100\<close>).
\<close>

definition plainKey :: "string \<Rightarrow> KeyboardEvent" where
  "plainKey k = \<lparr>key = k, metaKey = False, ctrlKey = False, altKey = False\<rparr>"

definition singleStart :: Trainer where
  "singleStart = initialTrainer (constRng 0) (constRng 0)"

definition comboStart :: Trainer where
  "comboStart = setModeAndReset Combo (constRng 0) (constRng 0) singleStart"

definition digitsStart :: Trainer where
  "digitsStart = setModeAndReset Digits (constRng 0) (constRng 0) singleStart"

text \<open>The states after the first correct key of the combo and of the number.\<close>

definition comboTyped :: Trainer where
  "comboTyped = onKeyDown (plainKey ''='') (constRng 0) (constRng 0) comboStart"

definition digitsTyped :: Trainer where
  "digitsTyped = onKeyDown (plainKey ''1'') (constRng 0) (constRng 0) digitsStart"

text \<open>The state after the second correct key of the number: one key is left to type.\<close>

definition digitsAlmost :: Trainer where
  "digitsAlmost = onKeyDown (plainKey ''0'') (constRng 0) (constRng 0) digitsTyped"

text \<open>
  Three wrong keys on the first target, and then the right key at time 500 (the next
  target drawn is \<open>(\<close> again).
\<close>

definition singleMissed :: Trainer where
  "singleMissed =
     onKeyDown (plainKey ''x'') (constRng 0) (constRng 0)
       (onKeyDown (plainKey ''x'') (constRng 0) (constRng 0)
          (onKeyDown (plainKey ''x'') (constRng 0) (constRng 0) singleStart))"

definition singleSolved :: Trainer where
  "singleSolved = onKeyDown (plainKey ''('') (constRng 0) (constRng 500) singleMissed"

section \<open>Reading a generated literal\<close>

text \<open>
  The parts of a numeric literal as a reader sees them: the leading sign characters,
  the digits that follow, whether a decimal point occurs, and what follows the first
  decimal point.
\<close>

definition isDigit :: "char \<Rightarrow> bool" where
  "isDigit c = (c \<in> set ''0123456789'')"

definition isSign :: "char \<Rightarrow> bool" where
  "isSign c = (c = CHR ''+'' \<or> c = CHR ''-'')"

definition signPart :: "string \<Rightarrow> string" where
  "signPart lit = takeWhile isSign lit"

definition intPart :: "string \<Rightarrow> string" where
  "intPart lit = takeWhile isDigit (dropWhile isSign lit)"

definition hasPoint :: "string \<Rightarrow> bool" where
  "hasPoint lit = (CHR ''.'' \<in> set lit)"

definition fracPart :: "string \<Rightarrow> string" where
  "fracPart lit = tl (dropWhile (\<lambda>c. c \<noteq> CHR ''.'') lit)"

section \<open>The invariant of the trainer\<close>

text \<open>
  What holds in every reachable state: the progress buffer is a prefix of the target
  and differs from a non-empty target; outside digits mode a non-empty target is an
  item of the pool; in digits mode the two buffers agree; the counters add up; every
  statistic has at least one attempt and no more successes than attempts.
\<close>

definition statsOk :: "(string \<rightharpoonup> Stat) \<Rightarrow> bool" where
  "statsOk m = (\<forall>k st. m k = Some st \<longrightarrow> correct st \<le> attempts st \<and> 1 \<le> attempts st)"

definition invariant :: "Trainer \<Rightarrow> bool" where
  "invariant s =
     (prefix (progress s) (target s)
      \<and> (mode s \<noteq> Digits \<longrightarrow> target s = [] \<or> target s \<in> set (pool s))
      \<and> (mode s = Digits \<longrightarrow> typed s = progress s)
      \<and> (progress s = target s \<longrightarrow> target s = [])
      \<and> totalAttempts s = totalCorrect s + totalMiss s
      \<and> statsOk (statsByItem s))"

text \<open>
  Settings as the trainer keeps them: each bound is an integer of \<open>[1,50]\<close> (clamping
  leaves it as it is) and each minimum is at most its maximum.
\<close>

definition validSettings :: "DigitsSettings \<Rightarrow> bool" where
  "validSettings st =
     (minIntDigits st = Num (real_of_int (clampInt (minIntDigits st) 1 50))
      \<and> maxIntDigits st = Num (real_of_int (clampInt (maxIntDigits st) 1 50))
      \<and> minFracDigits st = Num (real_of_int (clampInt (minFracDigits st) 1 50))
      \<and> maxFracDigits st = Num (real_of_int (clampInt (maxFracDigits st) 1 50))
      \<and> clampInt (minIntDigits st) 1 50 \<le> clampInt (maxIntDigits st) 1 50
      \<and> clampInt (minFracDigits st) 1 50 \<le> clampInt (maxFracDigits st) 1 50)"

section \<open>Properties of the random utilities and the generator\<close>

lemma randomInt_bounds:
  assumes "0 \<le> r" "r < 1"
  shows "min a b \<le> randomInt r a b \<and> randomInt r a b \<le> max a b"
proof -
  define n where "n = max a b - min a b + 1"
  have n: "1 \<le> n" by (simp add: n_def)
  have lo: "0 \<le> r * real_of_int n" using assms n by simp
  have "r * real_of_int n < 1 * real_of_int n"
    using assms n by (intro mult_strict_right_mono) auto
  then have hi: "r * real_of_int n < real_of_int n" by simp
  have f0: "0 \<le> \<lfloor>r * real_of_int n\<rfloor>" using lo by simp
  have f1: "\<lfloor>r * real_of_int n\<rfloor> < n" using hi by (simp add: floor_less_iff)
  show ?thesis using f0 f1 by (simp add: randomInt_def Let_def n_def)
qed

lemma clampInt_bounds: "mn \<le> mx \<Longrightarrow> mn \<le> clampInt x mn mx \<and> clampInt x mn mx \<le> mx"
  by (cases x) auto

lemma wf_rng_shift: "wf_rng g \<Longrightarrow> wf_rng (shift k g)"
  by (simp add: wf_rng_def shift_def)

lemma wf_rng_constRng: "wf_rng (constRng r) = (0 \<le> r \<and> r < 1)"
  by (simp add: wf_rng_def constRng_def)

lemma String_digit:
  assumes "0 \<le> d" "d \<le> 9"
  shows "String d = [digitChar (nat d)]"
  using assms by (simp add: String_def natString.simps)

lemma lt10_cases:
  "(d::nat) < 10 \<Longrightarrow> d = 0 \<or> d = 1 \<or> d = 2 \<or> d = 3 \<or> d = 4 \<or> d = 5 \<or> d = 6 \<or> d = 7 \<or> d = 8 \<or> d = 9"
  by arith

lemma digitChar_isDigit: "d < 10 \<Longrightarrow> isDigit (digitChar d)"
  using lt10_cases [of d] by (auto simp: isDigit_def digitChar_def)

lemma digitChar_nonzero: "0 < d \<Longrightarrow> d < 10 \<Longrightarrow> digitChar d \<noteq> CHR ''0''"
  using lt10_cases [of d] by (auto simp: digitChar_def)

lemma buildLoop_closed:
  "buildLoop g f n i chars = chars @ map (\<lambda>j. String (digit g f j)) [i..<n]"
proof (induction g f n i chars rule: buildLoop.induct)
  case (1 g f n i chars)
  show ?case
  proof (cases "i < n")
    case True
    then have "[i..<n] = i # [Suc i..<n]" by (simp add: upt_conv_Cons)
    with True "1" show ?thesis
      by (subst buildLoop.simps) simp
  next
    case False
    then show ?thesis by (subst buildLoop.simps) simp
  qed
qed

lemma digit_range:
  assumes "wf_rng g"
  shows "0 \<le> digit g f i \<and> digit g f i \<le> 9 \<and> (f \<and> i = 0 \<longrightarrow> 1 \<le> digit g f i)"
proof -
  have r: "0 \<le> g i" "g i < 1" using assms by (simp_all add: wf_rng_def)
  show ?thesis
    using randomInt_bounds [OF r, of 1 9] randomInt_bounds [OF r, of 0 9]
    by (auto simp: digit_def)
qed

lemma buildDigitsString_chars:
  assumes "wf_rng g"
  shows "buildDigitsString g len f = map (\<lambda>j. digitChar (nat (digit g f j))) [0..<loopCount len]"
proof -
  have "String (digit g f j) = [digitChar (nat (digit g f j))]" for j
    using digit_range [OF assms, of f j] by (simp add: String_digit)
  then show ?thesis
    by (simp add: buildDigitsString_def buildLoop_closed)
qed

lemma length_buildDigitsString:
  "wf_rng g \<Longrightarrow> length (buildDigitsString g len f) = loopCount len"
  by (simp add: buildDigitsString_chars)

lemma buildDigitsString_digits:
  assumes "wf_rng g" "c \<in> set (buildDigitsString g len f)"
  shows "isDigit c"
proof -
  from assms obtain j where c: "c = digitChar (nat (digit g f j))"
    by (auto simp: buildDigitsString_chars)
  have "nat (digit g f j) < 10" using digit_range [OF assms(1), of f j] by linarith
  then show ?thesis unfolding c by (rule digitChar_isDigit)
qed

lemma buildDigitsString_nonempty: "wf_rng g \<Longrightarrow> buildDigitsString g len f \<noteq> []"
  by (simp add: buildDigitsString_chars loopCount_def)

lemma buildDigitsString_first:
  assumes "wf_rng g"
  shows "hd (buildDigitsString g len True) \<noteq> CHR ''0''"
proof -
  have n: "0 < loopCount len" by (simp add: loopCount_def)
  then have "[0..<loopCount len] = 0 # [Suc 0..<loopCount len]" by (simp add: upt_conv_Cons)
  then have "hd (buildDigitsString g len True) = digitChar (nat (digit g True 0))"
    by (simp add: buildDigitsString_chars [OF assms])
  moreover have "0 < nat (digit g True 0)" "nat (digit g True 0) < 10"
    using digit_range [OF assms, of True 0] by auto
  ultimately show ?thesis by (simp add: digitChar_nonzero)
qed

lemma isDigit_not_isSign: "isDigit c \<Longrightarrow> \<not> isSign c"
  by (auto simp: isDigit_def isSign_def)

lemma isDigit_not_point: "isDigit c \<Longrightarrow> c \<noteq> CHR ''.''"
  by (auto simp: isDigit_def)

lemma isSign_not_point: "isSign c \<Longrightarrow> c \<noteq> CHR ''.''"
  by (auto simp: isSign_def)

lemma point_not_isDigit: "\<not> isDigit CHR ''.''"
  by (simp add: isDigit_def)

text \<open>A literal: a sign (possibly empty), digits, and possibly a point and digits.\<close>

lemma read_literal:
  assumes sg: "sg = [] \<or> sg = ''+'' \<or> sg = ''-''"
    and ip: "ip \<noteq> []" "\<forall>c\<in>set ip. isDigit c"
    and rest: "rest = [] \<or> (\<exists>fp. rest = CHR ''.'' # fp)"
  shows "signPart (sg @ ip @ rest) = sg"
    and "intPart (sg @ ip @ rest) = ip"
    and "hasPoint (sg @ ip @ rest) = (rest \<noteq> [])"
    and "fracPart (sg @ ip @ rest) = tl rest"
proof -
  obtain d ds where ipc: "ip = d # ds" using ip(1) by (cases ip) auto
  have d: "isDigit d" using ip(2) ipc by simp
  have sgs: "\<forall>c\<in>set sg. isSign c" using sg by (auto simp: isSign_def)
  have tw: "takeWhile isSign (sg @ ip @ rest) = sg"
    using sgs d by (simp add: ipc isDigit_not_isSign)
  have dw: "dropWhile isSign (sg @ ip @ rest) = ip @ rest"
    using sgs d by (simp add: ipc isDigit_not_isSign)
  have rd: "takeWhile isDigit rest = []"
    using rest point_not_isDigit by auto
  show "signPart (sg @ ip @ rest) = sg" by (simp add: signPart_def tw)
  show "intPart (sg @ ip @ rest) = ip"
    using ip(2) rd by (simp add: intPart_def dw)
  have np: "CHR ''.'' \<notin> set sg" "CHR ''.'' \<notin> set ip"
    using sgs ip(2) isSign_not_point isDigit_not_point by blast+
  show "hasPoint (sg @ ip @ rest) = (rest \<noteq> [])"
    using np rest by (auto simp: hasPoint_def)
  have "\<And>x. x \<in> set (sg @ ip) \<Longrightarrow> x \<noteq> CHR ''.''"
    using np by auto
  then have "dropWhile (\<lambda>c. c \<noteq> CHR ''.'') ((sg @ ip) @ rest) = dropWhile (\<lambda>c. c \<noteq> CHR ''.'') rest"
    by (rule dropWhile_append2)
  moreover have "dropWhile (\<lambda>c. c \<noteq> CHR ''.'') rest = rest"
    using rest by auto
  ultimately show "fracPart (sg @ ip @ rest) = tl rest" by (simp add: fracPart_def)
qed

lemmas gen_eval = generateDigitsTarget_def Let_def trunc_def randomInt_def shift_def constRng_def
  buildDigitsString_def buildLoop.simps loopCount_def digit_def String_def natString.simps
  digitChar_def

text \<open>The shape of every generated literal.\<close>

lemma generateDigitsTarget_shape:
  fixes st :: DigitsSettings
  assumes g: "wf_rng g"
  defines "a \<equiv> clampInt (minIntDigits st) 1 50" and "b \<equiv> clampInt (maxIntDigits st) 1 50"
    and "c \<equiv> clampInt (minFracDigits st) 1 50" and "d \<equiv> clampInt (maxFracDigits st) 1 50"
  shows "\<exists>sg ip rest.
           generateDigitsTarget st g = sg @ ip @ rest \<and>
           (sg = [] \<or> sg = ''+'' \<or> sg = ''-'') \<and> (sg \<noteq> [] \<longrightarrow> enableSign st) \<and>
           ip \<noteq> [] \<and> (\<forall>ch\<in>set ip. isDigit ch) \<and>
           min a b \<le> int (length ip) \<and> int (length ip) \<le> max a b \<and>
           ((rest = [] \<and> hd ip \<noteq> CHR ''0'') \<or>
            (enableDecimal st \<and>
             (\<exists>fp. rest = CHR ''.'' # fp \<and> (\<forall>ch\<in>set fp. isDigit ch) \<and>
                   min c d \<le> int (length fp) \<and> int (length fp) \<le> max c d)))"
proof -
  define intLen where "intLen = randomInt (g 0) a b"
  define withSign where "withSign = (g 2 < (if enableSign st then 3 / 10 else 0))"
  define withDecimal where "withDecimal = (g 1 < (if enableDecimal st then 3 / 10 else 0))"
  define sg where "sg = (if withSign then (if g 3 < 1 / 2 then ''+'' else ''-'') else [])"
  define k :: nat where "k = (if withSign then 4 else 3)"
  define k2 where "k2 = k + loopCount intLen"
  define fracLen where "fracLen = randomInt (g k2) c d"
  have r: "0 \<le> g i" "g i < 1" for i using g by (simp_all add: wf_rng_def)
  have ab: "1 \<le> a" "1 \<le> b" "1 \<le> c" "1 \<le> d"
    using clampInt_bounds [of 1 50] by (simp_all add: a_def b_def c_def d_def)
  have il: "min a b \<le> intLen" "intLen \<le> max a b"
    using randomInt_bounds [OF r, of a b 0] by (simp_all add: intLen_def)
  have fl: "min c d \<le> fracLen" "fracLen \<le> max c d"
    using randomInt_bounds [OF r, of c d k2] by (simp_all add: fracLen_def)
  have lc: "int (loopCount intLen) = intLen" "int (loopCount fracLen) = fracLen"
    using il fl ab by (simp_all add: loopCount_def)
  have sg1: "sg = [] \<or> sg = ''+'' \<or> sg = ''-''" by (simp add: sg_def)
  have sg2: "sg \<noteq> [] \<longrightarrow> enableSign st"
    using r(1) [of 2] by (auto simp: sg_def withSign_def split: if_splits)
  have dec: "withDecimal \<longrightarrow> enableDecimal st"
    using r(1) [of 1] by (auto simp: withDecimal_def split: if_splits)
  have wk: "wf_rng (shift k g)" "wf_rng (shift (Suc k2) g)" using g by (simp_all add: wf_rng_shift)
  show ?thesis
  proof (cases withDecimal)
    case False
    define ip where "ip = buildDigitsString (shift k g) intLen True"
    have eq: "generateDigitsTarget st g = sg @ ip @ []"
      using False
      by (simp add: generateDigitsTarget_def Let_def withDecimal_def sg_def withSign_def
          ip_def k_def intLen_def a_def b_def)
    have "ip \<noteq> []" "\<forall>ch\<in>set ip. isDigit ch" "int (length ip) = intLen" "hd ip \<noteq> CHR ''0''"
      using wk(1) lc
      by (auto simp: ip_def buildDigitsString_nonempty length_buildDigitsString
          buildDigitsString_first intro: buildDigitsString_digits)
    with eq sg1 sg2 il show ?thesis by (intro exI [of _ sg] exI [of _ ip] exI [of _ "[]"]) simp
  next
    case True
    define ip where "ip = buildDigitsString (shift k g) intLen False"
    define fp where "fp = buildDigitsString (shift (Suc k2) g) fracLen False"
    have eq: "generateDigitsTarget st g = sg @ ip @ (CHR ''.'' # fp)"
      using True
      by (simp add: generateDigitsTarget_def Let_def withDecimal_def sg_def withSign_def
          ip_def fp_def k_def k2_def intLen_def fracLen_def a_def b_def c_def d_def)
    have i: "ip \<noteq> []" "\<forall>ch\<in>set ip. isDigit ch" "int (length ip) = intLen"
      using wk(1) lc
      by (auto simp: ip_def buildDigitsString_nonempty length_buildDigitsString
          intro: buildDigitsString_digits)
    have f: "\<forall>ch\<in>set fp. isDigit ch" "int (length fp) = fracLen"
      using wk(2) lc
      by (auto simp: fp_def length_buildDigitsString intro: buildDigitsString_digits)
    from eq sg1 sg2 il fl i f dec True show ?thesis
      by (intro exI [of _ sg] exI [of _ ip] exI [of _ "CHR ''.'' # fp"]) simp
  qed
qed

lemma trunc_of_int [simp]: "trunc (real_of_int k) = k"
  by (simp add: trunc_def)

lemma clampInt_of_int: "mn \<le> k \<Longrightarrow> k \<le> mx \<Longrightarrow> clampInt (Num (real_of_int k)) mn mx = k"
  by simp

text \<open>
  Claim C5, as amended. For all settings and every random source, the literal returned by
  \<open>generateDigitsTarget\<close> is its sign part, its integer part and, when it has a
  decimal point, the point and its fractional part. The sign part is empty, \<open>+\<close> or
  \<open>-\<close>, and is non-empty only when the sign is enabled; a decimal point occurs only
  when decimals are enabled. With the four configured bounds clamped to \<open>[1,50]\<close>,
  the number of integer digits lies between the smaller and the larger of the two clamped
  integer bounds, and with a decimal point the number of fractional digits lies between
  the smaller and the larger of the two clamped fractional bounds. Without a decimal
  point the integer part has no leading zero. When the configured bounds of a pair are
  integers with \<open>1 \<le> min \<le> max \<le> 50\<close>, the digit count lies in the configured range.
\<close>

theorem generateDigitsTarget_literal:
  assumes "wf_rng g"
  shows "let lit = generateDigitsTarget st g;
             a = clampInt (minIntDigits st) 1 50; b = clampInt (maxIntDigits st) 1 50;
             c = clampInt (minFracDigits st) 1 50; d = clampInt (maxFracDigits st) 1 50
         in lit = signPart lit @ intPart lit @ (if hasPoint lit then ''.'' @ fracPart lit else [])
            \<and> (signPart lit = [] \<or> signPart lit = ''+'' \<or> signPart lit = ''-'')
            \<and> (signPart lit \<noteq> [] \<longrightarrow> enableSign st)
            \<and> (hasPoint lit \<longrightarrow> enableDecimal st)
            \<and> (\<forall>ch\<in>set (intPart lit). isDigit ch)
            \<and> min a b \<le> int (length (intPart lit)) \<and> int (length (intPart lit)) \<le> max a b
            \<and> (hasPoint lit \<longrightarrow>
                 (\<forall>ch\<in>set (fracPart lit). isDigit ch)
                 \<and> min c d \<le> int (length (fracPart lit))
                 \<and> int (length (fracPart lit)) \<le> max c d)
            \<and> (\<not> hasPoint lit \<longrightarrow> hd (intPart lit) \<noteq> CHR ''0'')
            \<and> (\<forall>i j. minIntDigits st = Num (real_of_int i) \<and> maxIntDigits st = Num (real_of_int j)
                   \<and> 1 \<le> i \<and> i \<le> j \<and> j \<le> 50
                 \<longrightarrow> i \<le> int (length (intPart lit)) \<and> int (length (intPart lit)) \<le> j)
            \<and> (\<forall>i j. hasPoint lit
                   \<and> minFracDigits st = Num (real_of_int i) \<and> maxFracDigits st = Num (real_of_int j)
                   \<and> 1 \<le> i \<and> i \<le> j \<and> j \<le> 50
                 \<longrightarrow> i \<le> int (length (fracPart lit)) \<and> int (length (fracPart lit)) \<le> j)"
proof -
  obtain sg ip rest where
    eq: "generateDigitsTarget st g = sg @ ip @ rest"
    and sg: "sg = [] \<or> sg = ''+'' \<or> sg = ''-''" "sg \<noteq> [] \<longrightarrow> enableSign st"
    and ip: "ip \<noteq> []" "\<forall>ch\<in>set ip. isDigit ch"
    and len: "min (clampInt (minIntDigits st) 1 50) (clampInt (maxIntDigits st) 1 50) \<le> int (length ip)"
      "int (length ip) \<le> max (clampInt (minIntDigits st) 1 50) (clampInt (maxIntDigits st) 1 50)"
    and rest: "(rest = [] \<and> hd ip \<noteq> CHR ''0'') \<or>
            (enableDecimal st \<and>
             (\<exists>fp. rest = CHR ''.'' # fp \<and> (\<forall>ch\<in>set fp. isDigit ch) \<and>
                   min (clampInt (minFracDigits st) 1 50) (clampInt (maxFracDigits st) 1 50) \<le> int (length fp) \<and>
                   int (length fp) \<le> max (clampInt (minFracDigits st) 1 50) (clampInt (maxFracDigits st) 1 50)))"
    using generateDigitsTarget_shape [OF assms, of st] by blast
  have rest': "rest = [] \<or> (\<exists>fp. rest = CHR ''.'' # fp)"
    using rest by auto
  note rd = read_literal [OF sg(1) ip rest']
  have main: "generateDigitsTarget st g = sg @ ip @ (if rest \<noteq> [] then ''.'' @ tl rest else [])"
    "rest \<noteq> [] \<longrightarrow> enableDecimal st"
    "rest \<noteq> [] \<longrightarrow> (\<forall>ch\<in>set (tl rest). isDigit ch)
       \<and> min (clampInt (minFracDigits st) 1 50) (clampInt (maxFracDigits st) 1 50) \<le> int (length (tl rest))
       \<and> int (length (tl rest)) \<le> max (clampInt (minFracDigits st) 1 50) (clampInt (maxFracDigits st) 1 50)"
    "rest = [] \<longrightarrow> hd ip \<noteq> CHR ''0''"
    using eq rest by auto
  have vi: "i \<le> int (length ip) \<and> int (length ip) \<le> j"
    if "minIntDigits st = Num (real_of_int i) \<and> maxIntDigits st = Num (real_of_int j)
          \<and> 1 \<le> i \<and> i \<le> j \<and> j \<le> 50" for i j
    using that len by (simp add: clampInt_of_int del: clampInt.simps)
  have vf: "i \<le> int (length (tl rest)) \<and> int (length (tl rest)) \<le> j"
    if "rest \<noteq> [] \<and> minFracDigits st = Num (real_of_int i) \<and> maxFracDigits st = Num (real_of_int j)
          \<and> 1 \<le> i \<and> i \<le> j \<and> j \<le> 50" for i j
    using that main(3) by (simp add: clampInt_of_int del: clampInt.simps)
  show ?thesis
    unfolding Let_def eq rd
    using sg ip len main(2,3,4) vi vf
    by (intro conjI allI impI) (simp_all add: main(1) [unfolded eq])
qed

theorem generateDigitsTarget_literal_witness:
  "wf_rng (constRng (1 / 4)) \<and>
   generateDigitsTarget
     \<lparr>minIntDigits = Num 2, maxIntDigits = Num 3, enableSign = True,
      enableDecimal = True, minFracDigits = Num 1, maxFracDigits = Num 2\<rparr>
     (constRng (1 / 4)) = ''+22.2'' \<and>
   signPart ''+22.2'' = ''+'' \<and> intPart ''+22.2'' = ''22'' \<and>
   hasPoint ''+22.2'' \<and> fracPart ''+22.2'' = ''2'' \<and>
   (2::int) \<le> int (length ''22'') \<and> int (length ''22'') \<le> 3"
  using generateDigitsTarget_literal
    [of "constRng (1 / 4)"
        "\<lparr>minIntDigits = Num 2, maxIntDigits = Num 3, enableSign = True,
         enableDecimal = True, minFracDigits = Num 1, maxFracDigits = Num 2\<rparr>"]
  by (simp add: wf_rng_def gen_eval signPart_def intPart_def hasPoint_def fracPart_def
      isSign_def isDigit_def)

text \<open>
  The claim as stated fails for settings outside \<open>[1,50]\<close>: with 60 and 70 as the
  integer bounds, the literal has 50 integer digits.
\<close>

theorem generateDigitsTarget_configured_range_counterexample:
  "wf_rng (constRng 0) \<and>
   generateDigitsTarget
     \<lparr>minIntDigits = Num 60, maxIntDigits = Num 70, enableSign = False,
      enableDecimal = False, minFracDigits = Num 1, maxFracDigits = Num 4\<rparr>
     (constRng 0) = ''10000000000000000000000000000000000000000000000000'' \<and>
   intPart ''10000000000000000000000000000000000000000000000000''
     = ''10000000000000000000000000000000000000000000000000'' \<and>
   length ''10000000000000000000000000000000000000000000000000'' = 50 \<and>
   \<not> (60 \<le> length (intPart (generateDigitsTarget
     \<lparr>minIntDigits = Num 60, maxIntDigits = Num 70, enableSign = False,
      enableDecimal = False, minFracDigits = Num 1, maxFracDigits = Num 4\<rparr>
     (constRng 0))))"
  by (simp add: wf_rng_def gen_eval intPart_def isSign_def isDigit_def)

section \<open>The settings after an edit\<close>

lemma digitsSettings_resetQuestion [simp]:
  "digitsSettings (resetQuestion m ov g clk s) = digitsSettings s"
  by (simp add: resetQuestion_def Let_def)

lemma digitsSettings_setDigitsSettingsAndReset:
  "digitsSettings (setDigitsSettingsAndReset next g clk s) = normalized next"
  by (simp add: setDigitsSettingsAndReset_def)

lemma clampInt_nonfinite: "\<not> isFinite x \<Longrightarrow> clampInt x mn mx = mn"
  by (cases x) simp_all

text \<open>
  Claim C7. After \<open>setDigitsSettingsAndReset\<close>, whatever settings it is given, the stored
  settings hold integers: each of the four digit-count bounds lies in \<open>[1,50]\<close>, the
  minimum of each pair is at most its maximum (the minimum is lowered to the maximum
  when it exceeds it), and a bound given as a non-finite number is stored as 1. The two
  switches are stored as given.
\<close>

theorem setDigitsSettingsAndReset_bounds:
  "let n = digitsSettings (setDigitsSettingsAndReset next g clk s);
       a = clampInt (minIntDigits next) 1 50; b = clampInt (maxIntDigits next) 1 50;
       c = clampInt (minFracDigits next) 1 50; d = clampInt (maxFracDigits next) 1 50
   in minIntDigits n = Num (real_of_int (min a b)) \<and> maxIntDigits n = Num (real_of_int b)
      \<and> minFracDigits n = Num (real_of_int (min c d)) \<and> maxFracDigits n = Num (real_of_int d)
      \<and> 1 \<le> min a b \<and> min a b \<le> b \<and> b \<le> 50
      \<and> 1 \<le> min c d \<and> min c d \<le> d \<and> d \<le> 50
      \<and> (\<not> isFinite (minIntDigits next) \<longrightarrow> minIntDigits n = Num 1)
      \<and> (\<not> isFinite (maxIntDigits next) \<longrightarrow> maxIntDigits n = Num 1)
      \<and> (\<not> isFinite (minFracDigits next) \<longrightarrow> minFracDigits n = Num 1)
      \<and> (\<not> isFinite (maxFracDigits next) \<longrightarrow> maxFracDigits n = Num 1)
      \<and> enableSign n = enableSign next \<and> enableDecimal n = enableDecimal next"
proof -
  have b: "1 \<le> clampInt x 1 50" "clampInt x 1 50 \<le> 50" for x
    using clampInt_bounds [of 1 50 x] by simp_all
  have m: "min 1 k = 1" "min k 1 = 1" if "1 \<le> k" for k :: int
    using that by simp_all
  show ?thesis
    unfolding Let_def digitsSettings_setDigitsSettingsAndReset
    using b by (simp add: normalized_def Let_def clampInt_nonfinite m)
qed

theorem setDigitsSettingsAndReset_bounds_witness:
  "\<not> isFinite NaN \<and> \<not> isFinite PosInfinity \<and>
   digitsSettings
     (setDigitsSettingsAndReset
        \<lparr>minIntDigits = NaN, maxIntDigits = Num 70, enableSign = True,
         enableDecimal = False, minFracDigits = Num 9, maxFracDigits = PosInfinity\<rparr>
        (constRng 0) (constRng 0) (initialTrainer (constRng 0) (constRng 0)))
   = \<lparr>minIntDigits = Num 1, maxIntDigits = Num 50, enableSign = True,
      enableDecimal = False, minFracDigits = Num 1, maxFracDigits = Num 1\<rparr>"
  using setDigitsSettingsAndReset_bounds
    [of "\<lparr>minIntDigits = NaN, maxIntDigits = Num 70, enableSign = True,
         enableDecimal = False, minFracDigits = Num 9, maxFracDigits = PosInfinity\<rparr>"
        "constRng 0" "constRng 0" "initialTrainer (constRng 0) (constRng 0)"]
  by (simp add: Let_def trunc_def DigitsSettings.equality)

section \<open>The invariant holds in every reachable state\<close>

lemma pickRandom_in_set:
  assumes "0 \<le> r" "r < 1" "xs \<noteq> []"
  shows "pickRandom r xs \<in> set xs"
proof -
  define n where "n = length xs"
  have n: "0 < n" using assms(3) by (simp add: n_def)
  have lo: "0 \<le> r * real n" using assms by simp
  have "r * real n < 1 * real n" using assms n by (intro mult_strict_right_mono) auto
  then have hi: "r * real n < real n" by simp
  have f0: "0 \<le> \<lfloor>r * real n\<rfloor>" using lo by simp
  have "\<lfloor>r * real n\<rfloor> < int n" using hi by (simp add: floor_less_iff)
  then have f1: "nat \<lfloor>r * real n\<rfloor> < n" using f0 by linarith
  show ?thesis using f0 f1 by (simp add: pickRandom_def Let_def n_def)
qed

lemma pool_cong:
  "mode s' = mode s \<Longrightarrow> enabledSingle s' = enabledSingle s \<Longrightarrow> enabledCombo s' = enabledCombo s
   \<Longrightarrow> pool s' = pool s"
  by (simp add: pool_def basePool_def enabledMapOf_def)

lemma pool_Single:
  "mode s = Single \<Longrightarrow> pool s = filter (\<lambda>item. enabledSingle s item \<noteq> Some False) SINGLE_SYMBOLS"
  by (simp add: pool_def basePool_def enabledMapOf_def)

lemma pool_Combo:
  "mode s = Combo \<Longrightarrow> pool s = filter (\<lambda>item. enabledCombo s item \<noteq> Some False) COMBOS"
  by (simp add: pool_def basePool_def enabledMapOf_def)

text \<open>What \<open>resetQuestion\<close> leaves alone and what it sets.\<close>

lemma resetQuestion_frame [simp]:
  "mode (resetQuestion m ov g clk s) = mode s"
  "isRunning (resetQuestion m ov g clk s) = isRunning s"
  "enabledSingle (resetQuestion m ov g clk s) = enabledSingle s"
  "enabledCombo (resetQuestion m ov g clk s) = enabledCombo s"
  "totalAttempts (resetQuestion m ov g clk s) = totalAttempts s"
  "totalCorrect (resetQuestion m ov g clk s) = totalCorrect s"
  "totalMiss (resetQuestion m ov g clk s) = totalMiss s"
  "totalBackspace (resetQuestion m ov g clk s) = totalBackspace s"
  "lastTimeMs (resetQuestion m ov g clk s) = lastTimeMs s"
  "statsByItem (resetQuestion m ov g clk s) = statsByItem s"
  by (simp_all add: resetQuestion_def Let_def)

lemma resetQuestion_buffers [simp]:
  "typed (resetQuestion m ov g clk s) = []"
  "progress (resetQuestion m ov g clk s) = []"
  "shownAt (resetQuestion m ov g clk s) = clk 0"
  by (simp_all add: resetQuestion_def Let_def)

lemma resetQuestion_target_symbols:
  assumes "wf_rng g" "m \<noteq> Digits" "mode s = m"
    and "ovEnabledSingle ov = None \<or> ovEnabledSingle ov = Some (enabledSingle s)"
    and "ovEnabledCombo ov = None \<or> ovEnabledCombo ov = Some (enabledCombo s)"
  shows "target (resetQuestion m ov g clk s) = [] \<or> target (resetQuestion m ov g clk s) \<in> set (pool s)"
proof -
  have r: "0 \<le> g 0" "g 0 < 1" using assms(1) by (simp_all add: wf_rng_def)
  have es: "(case ovEnabledSingle ov of Some m \<Rightarrow> m | None \<Rightarrow> enabledSingle s) = enabledSingle s"
    using assms(4) by auto
  have ec: "(case ovEnabledCombo ov of Some m \<Rightarrow> m | None \<Rightarrow> enabledCombo s) = enabledCombo s"
    using assms(5) by auto
  show ?thesis
  proof (cases m)
    case Single
    then show ?thesis
      using assms(3) pickRandom_in_set [OF r, of "pool s"]
      by (simp add: resetQuestion_def Let_def es pool_Single)
  next
    case Combo
    then show ?thesis
      using assms(3) pickRandom_in_set [OF r, of "pool s"]
      by (simp add: resetQuestion_def Let_def ec pool_Combo)
  next
    case Digits
    then show ?thesis using assms(2) by simp
  qed
qed

lemma resetQuestion_invariant:
  assumes "wf_rng g" "mode s = m"
    and "ovEnabledSingle ov = None \<or> ovEnabledSingle ov = Some (enabledSingle s)"
    and "ovEnabledCombo ov = None \<or> ovEnabledCombo ov = Some (enabledCombo s)"
    and "totalAttempts s = totalCorrect s + totalMiss s" "statsOk (statsByItem s)"
  shows "invariant (resetQuestion m ov g clk s)"
proof -
  let ?s' = "resetQuestion m ov g clk s"
  have p: "pool ?s' = pool s" by (rule pool_cong) simp_all
  have t: "mode ?s' \<noteq> Digits \<longrightarrow> target ?s' = [] \<or> target ?s' \<in> set (pool ?s')"
    using resetQuestion_target_symbols [OF assms(1) _ assms(2,3,4), of clk] assms(2)
    by (auto simp: p)
  show ?thesis
    unfolding invariant_def
    using t assms(5,6) by (simp add: statsOk_def)
qed

lemma invariant_statsOk: "invariant s \<Longrightarrow> statsOk (statsByItem s)"
  by (simp add: invariant_def statsOk_def)

lemma statsOk_bumpStat:
  assumes "statsOk m"
  shows "statsOk (bumpStat it b e m)"
proof -
  have old: "correct st \<le> attempts st" if "m it = Some st" for st
    using assms that by (simp add: statsOk_def)
  have "correct st \<le> attempts st \<and> 1 \<le> attempts st"
    if "bumpStat it b e m k = Some st" for k st
  proof (cases "k = it")
    case True
    with that show ?thesis
      using old by (cases "m it") (auto simp: bumpStat_def current_def Let_def le_Suc_eq)
  next
    case False
    with that assms show ?thesis by (simp add: bumpStat_def Let_def statsOk_def)
  qed
  then show ?thesis by (simp add: statsOk_def)
qed

lemma statsOk_empty: "statsOk Map.empty"
  by (simp add: statsOk_def)

lemma nextQuestion_frame [simp]:
  "mode (nextQuestion g clk s) = mode s"
  "isRunning (nextQuestion g clk s) = isRunning s"
  "enabledSingle (nextQuestion g clk s) = enabledSingle s"
  "enabledCombo (nextQuestion g clk s) = enabledCombo s"
  "totalAttempts (nextQuestion g clk s) = totalAttempts s"
  "totalCorrect (nextQuestion g clk s) = totalCorrect s"
  "totalMiss (nextQuestion g clk s) = totalMiss s"
  "totalBackspace (nextQuestion g clk s) = totalBackspace s"
  "lastTimeMs (nextQuestion g clk s) = lastTimeMs s"
  "statsByItem (nextQuestion g clk s) = statsByItem s"
  "digitsSettings (nextQuestion g clk s) = digitsSettings s"
  by (simp_all add: nextQuestion_def)

text \<open>With a non-empty pool, or in digits mode, \<open>nextQuestion\<close> shows a new target.\<close>

lemma nextQuestion_draws:
  assumes "mode s = Digits \<or> pool s \<noteq> []"
  shows "typed (nextQuestion g clk s) = []" "progress (nextQuestion g clk s) = []"
    "shownAt (nextQuestion g clk s) = clk 0"
    "target (nextQuestion g clk s) =
       (if mode s = Digits then generateDigitsTarget (digitsSettings s) g
        else pickRandom (g 0) (pool s))"
  using assms by (auto simp: nextQuestion_def resetQuestion_def noOverrides_def Let_def)

lemma nextQuestion_invariant:
  assumes "wf_rng g" "mode s = Digits \<or> pool s \<noteq> []"
    and "totalAttempts s = totalCorrect s + totalMiss s" "statsOk (statsByItem s)"
  shows "invariant (nextQuestion g clk s)"
proof -
  let ?s' = "nextQuestion g clk s"
  have r: "0 \<le> g 0" "g 0 < 1" using assms(1) by (simp_all add: wf_rng_def)
  have p: "pool ?s' = pool s" by (rule pool_cong) simp_all
  have t: "mode s \<noteq> Digits \<longrightarrow> target ?s' \<in> set (pool s)"
    using assms(2) pickRandom_in_set [OF r, of "pool s"] by (auto simp: nextQuestion_draws)
  show ?thesis
    unfolding invariant_def
    using t assms(2,3,4) by (simp add: nextQuestion_draws(1,2) p statsOk_def)
qed

lemma completion_invariant:
  assumes "wf_rng g" "mode s = Digits \<or> pool s \<noteq> []"
    and "totalAttempts s = totalCorrect s + totalMiss s" "statsOk (statsByItem s)"
  shows "invariant (completion g clk s)"
proof -
  define s2 where "s2 = s\<lparr>lastTimeMs := Some (clk 0 - shownAt s),
              totalAttempts := totalAttempts s + 1,
              totalCorrect := totalCorrect s + 1,
              statsByItem := bumpStat (target s) True (Some (clk 0 - shownAt s)) (statsByItem s)\<rparr>"
  have c: "completion g clk s = nextQuestion g (shift 1 clk) s2"
    by (simp add: completion_def Let_def s2_def)
  have p: "pool s2 = pool s" by (rule pool_cong) (simp_all add: s2_def)
  have "invariant (nextQuestion g (shift 1 clk) s2)"
  proof (rule nextQuestion_invariant [OF assms(1)])
    show "mode s2 = Digits \<or> pool s2 \<noteq> []" using assms(2) by (simp add: p) (simp add: s2_def)
    show "totalAttempts s2 = totalCorrect s2 + totalMiss s2" using assms(3) by (simp add: s2_def)
    show "statsOk (statsByItem s2)" using assms(4) by (simp add: s2_def statsOk_bumpStat)
  qed
  then show ?thesis by (simp add: c)
qed

lemma invariant_pool_nonempty:
  assumes "invariant s" "target s \<noteq> []"
  shows "mode s = Digits \<or> pool s \<noteq> []"
  using assms by (auto simp: invariant_def)

lemma prefix_expectedChar:
  assumes "prefix p t" "length k = 1" "k = expectedChar t p"
  shows "prefix (p @ k) t"
proof -
  from assms(1) obtain r where t: "t = p @ r" by (auto simp: prefix_def)
  from assms(2,3) have "length p < length t" by (auto simp: expectedChar_def split: if_splits)
  then obtain c cs where r: "r = c # cs" using t by (cases r) auto
  have "k = [c]" using assms(3) \<open>length p < length t\<close> by (simp add: expectedChar_def t r)
  then show ?thesis by (simp add: t r)
qed

lemma normalizeKey_printable: "length k = 1 \<Longrightarrow> normalizeKey k = k"
  by (auto simp: normalizeKey_def)

lemma normalizeKey_cases: "normalizeKey k = k \<or> normalizeKey k = []"
  by (simp add: normalizeKey_def)

lemma printable_not_Backspace: "length k = 1 \<Longrightarrow> k \<noteq> ''Backspace''"
  by auto

text \<open>The branches of \<open>onKeyDown\<close>, one equation each.\<close>

lemma onKeyDown_backspace:
  assumes "isRunning s" "target s \<noteq> []" "mode s = Digits" "backspaceKey e"
  shows "onKeyDown e g clk s =
           s\<lparr>totalBackspace := totalBackspace s + 1,
             typed := butlast (typed s), progress := butlast (progress s)\<rparr>"
  using assms by (simp add: onKeyDown_def backspaceKey_def)

lemma onKeyDown_digits:
  assumes "isRunning s" "target s \<noteq> []" "mode s = Digits" "printableKey e"
  shows "onKeyDown e g clk s =
           (if key e = expectedChar (target s) (progress s)
            then (if progress s @ key e = target s
                  then completion g clk (s\<lparr>typed := progress s @ key e, progress := progress s @ key e\<rparr>)
                  else s\<lparr>typed := progress s @ key e, progress := progress s @ key e\<rparr>)
            else s\<lparr>totalAttempts := totalAttempts s + 1,
                   totalMiss := totalMiss s + 1,
                   statsByItem := bumpStat (target s) False None (statsByItem s)\<rparr>)"
proof -
  have k: "length (key e) = 1" "normalizeKey (key e) = key e" "key e \<noteq> ''Backspace''" "key e \<noteq> []"
    using assms(4) by (auto simp: printableKey_def normalizeKey_printable)
  have m: "\<not> (metaKey e \<or> ctrlKey e \<or> altKey e)" using assms(4) by (simp add: printableKey_def)
  show ?thesis
    unfolding onKeyDown_def using assms(1,2,3) m k by (simp add: Let_def)
qed

lemma onKeyDown_symbols:
  assumes "isRunning s" "target s \<noteq> []" "mode s \<noteq> Digits" "printableKey e"
  shows "onKeyDown e g clk s =
           (if prefix (progress s @ key e) (target s)
            then (if progress s @ key e = target s
                  then completion g clk (s\<lparr>typed := typed s @ key e, progress := progress s @ key e\<rparr>)
                  else s\<lparr>typed := typed s @ key e, progress := progress s @ key e\<rparr>)
            else s\<lparr>typed := typed s @ key e,
                   totalAttempts := totalAttempts s + 1,
                   totalMiss := totalMiss s + 1,
                   statsByItem := bumpStat (target s) False None (statsByItem s),
                   progress := []\<rparr>)"
proof -
  have k: "length (key e) = 1" "normalizeKey (key e) = key e" "key e \<noteq> []"
    using assms(4) by (auto simp: printableKey_def normalizeKey_printable)
  have m: "\<not> (metaKey e \<or> ctrlKey e \<or> altKey e)" using assms(4) by (simp add: printableKey_def)
  show ?thesis
    unfolding onKeyDown_def using assms(1,2,3) m k by (simp add: Let_def)
qed

lemma onKeyDown_ignored:
  assumes "\<not> isRunning s \<or> target s = [] \<or> metaKey e \<or> ctrlKey e \<or> altKey e
           \<or> (length (key e) \<noteq> 1 \<and> \<not> (mode s = Digits \<and> key e = ''Backspace''))"
  shows "onKeyDown e g clk s = s"
proof (cases "\<not> isRunning s \<or> target s = [] \<or> metaKey e \<or> ctrlKey e \<or> altKey e")
  case True
  then show ?thesis unfolding onKeyDown_def by auto
next
  case False
  with assms have l: "length (key e) \<noteq> 1" and b: "\<not> (mode s = Digits \<and> key e = ''Backspace'')"
    by auto
  have "normalizeKey (key e) = [] \<or> length (normalizeKey (key e)) \<noteq> 1"
    using l normalizeKey_cases [of "key e"] by auto
  then show ?thesis
  proof
    assume "normalizeKey (key e) = []"
    then show ?thesis unfolding onKeyDown_def using b by (simp add: Let_def)
  next
    assume "length (normalizeKey (key e)) \<noteq> 1"
    then show ?thesis unfolding onKeyDown_def using b by (simp add: Let_def)
  qed
qed

lemma onKeyDown_cases:
  obtains (ignored) "onKeyDown e g clk s = s"
  | (backspace) "isRunning s" "target s \<noteq> []" "mode s = Digits" "backspaceKey e"
  | (digits) "isRunning s" "target s \<noteq> []" "mode s = Digits" "printableKey e"
  | (symbols) "isRunning s" "target s \<noteq> []" "mode s \<noteq> Digits" "printableKey e"
proof (cases "\<not> isRunning s \<or> target s = [] \<or> metaKey e \<or> ctrlKey e \<or> altKey e
           \<or> (length (key e) \<noteq> 1 \<and> \<not> (mode s = Digits \<and> key e = ''Backspace''))")
  case True
  then show ?thesis using onKeyDown_ignored ignored by blast
next
  case False
  then have a: "isRunning s" "target s \<noteq> []" "\<not> metaKey e" "\<not> ctrlKey e" "\<not> altKey e"
    and b: "length (key e) = 1 \<or> (mode s = Digits \<and> key e = ''Backspace'')"
    by auto
  show ?thesis
  proof (cases "length (key e) = 1")
    case True
    then have "printableKey e" using a by (simp add: printableKey_def)
    then show ?thesis using a digits symbols by blast
  next
    case False
    then have "mode s = Digits" "backspaceKey e" using a b by (auto simp: backspaceKey_def)
    then show ?thesis using a backspace by blast
  qed
qed

lemma prefix_butlast_trans: "prefix p t \<Longrightarrow> prefix (butlast p) t"
  using prefix_order.trans [OF prefixeq_butlast] by blast

lemma butlast_eq_target:
  assumes "prefix p t" "butlast p = t"
  shows "t = []"
proof -
  have "length p \<le> length t" using assms(1) by (rule prefix_length_le)
  moreover have "length t = length p - 1" using assms(2) by auto
  ultimately have "p = []" by (cases p) auto
  with assms(2) show ?thesis by simp
qed

lemma onKeyDown_invariant:
  assumes inv: "invariant s" and g: "wf_rng g"
  shows "invariant (onKeyDown e g clk s)"
proof (cases e g clk s rule: onKeyDown_cases)
  case ignored
  then show ?thesis using inv by simp
next
  case backspace
  have "invariant (s\<lparr>totalBackspace := totalBackspace s + 1,
             typed := butlast (typed s), progress := butlast (progress s)\<rparr>)"
    using inv backspace(3)
    by (auto simp: invariant_def prefix_butlast_trans dest: butlast_eq_target)
  then show ?thesis by (simp add: onKeyDown_backspace [OF backspace])
next
  case digits
  note eq = onKeyDown_digits [OF digits, of g clk]
  have k: "length (key e) = 1" using digits(4) by (simp add: printableKey_def)
  have cnt: "totalAttempts s = totalCorrect s + totalMiss s" using inv by (simp add: invariant_def)
  have pre: "prefix (progress s) (target s)" using inv by (simp add: invariant_def)
  show ?thesis
  proof (cases "key e = expectedChar (target s) (progress s)")
    case True
    have np: "prefix (progress s @ key e) (target s)"
      using prefix_expectedChar [OF pre k True] .
    show ?thesis
    proof (cases "progress s @ key e = target s")
      case c: True
      have "invariant (completion g clk
              (s\<lparr>typed := progress s @ key e, progress := progress s @ key e\<rparr>))"
        using digits(3) cnt invariant_statsOk [OF inv]
        by (intro completion_invariant [OF g]) simp_all
      then show ?thesis using True c by (simp add: eq)
    next
      case c: False
      have "invariant (s\<lparr>typed := progress s @ key e, progress := progress s @ key e\<rparr>)"
        using inv digits(3) np c by (simp add: invariant_def)
      then show ?thesis using True c by (simp add: eq)
    qed
  next
    case False
    have "statsOk (bumpStat (target s) False None (statsByItem s))"
      using invariant_statsOk [OF inv] by (rule statsOk_bumpStat)
    then have "invariant (s\<lparr>totalAttempts := totalAttempts s + 1,
                   totalMiss := totalMiss s + 1,
                   statsByItem := bumpStat (target s) False None (statsByItem s)\<rparr>)"
      using inv digits(3) by (simp add: invariant_def statsOk_def)
    then show ?thesis using False by (simp add: eq)
  qed
next
  case symbols
  note eq = onKeyDown_symbols [OF symbols, of g clk]
  have cnt: "totalAttempts s = totalCorrect s + totalMiss s" using inv by (simp add: invariant_def)
  have pl: "pool s \<noteq> []" using invariant_pool_nonempty [OF inv symbols(2)] symbols(3) by simp
  have tp: "target s \<in> set (pool s)" using inv symbols(2,3) by (simp add: invariant_def)
  show ?thesis
  proof (cases "prefix (progress s @ key e) (target s)")
    case True
    show ?thesis
    proof (cases "progress s @ key e = target s")
      case c: True
      let ?s1 = "s\<lparr>typed := typed s @ key e, progress := progress s @ key e\<rparr>"
      have p: "pool ?s1 = pool s" by (rule pool_cong) simp_all
      have "invariant (completion g clk ?s1)"
        using cnt invariant_statsOk [OF inv] pl
        by (intro completion_invariant [OF g]) (simp_all add: p)
      then show ?thesis using True c by (simp add: eq)
    next
      case c: False
      let ?s1 = "s\<lparr>typed := typed s @ key e, progress := progress s @ key e\<rparr>"
      have p: "pool ?s1 = pool s" by (rule pool_cong) simp_all
      have "invariant ?s1"
        unfolding invariant_def p using inv symbols(3) True c tp by (simp add: invariant_def)
      then show ?thesis using True c by (simp add: eq)
    qed
  next
    case False
    let ?s1 = "s\<lparr>typed := typed s @ key e,
                   totalAttempts := totalAttempts s + 1,
                   totalMiss := totalMiss s + 1,
                   statsByItem := bumpStat (target s) False None (statsByItem s),
                   progress := []\<rparr>"
    have p: "pool ?s1 = pool s" by (rule pool_cong) simp_all
    have "statsOk (bumpStat (target s) False None (statsByItem s))"
      using invariant_statsOk [OF inv] by (rule statsOk_bumpStat)
    then have "invariant ?s1"
      unfolding invariant_def p using inv symbols(3) tp by (simp add: invariant_def statsOk_def)
    then show ?thesis using False by (simp add: eq)
  qed
qed

lemma initEnabledMap_not_False: "initEnabledMap xs it \<noteq> Some False"
proof
  assume "initEnabledMap xs it = Some False"
  then have "(it, False) \<in> set (map (\<lambda>item. (item, True)) xs)"
    unfolding initEnabledMap_def by (rule map_of_SomeD)
  then show False by auto
qed

lemma initialTrainer_invariant:
  assumes "wf_rng g"
  shows "invariant (initialTrainer g clk)"
proof -
  have r: "0 \<le> g 0" "g 0 < 1" using assms by (simp_all add: wf_rng_def)
  have p: "pool (initialTrainer g clk) = SINGLE_SYMBOLS"
    by (simp add: pool_def basePool_def enabledMapOf_def initialTrainer_def initEnabledMap_not_False)
  have "SINGLE_SYMBOLS \<noteq> []" by (simp add: SINGLE_SYMBOLS_def)
  then have "pickRandom (g 0) SINGLE_SYMBOLS \<in> set SINGLE_SYMBOLS"
    by (rule pickRandom_in_set [OF r])
  then show ?thesis
    unfolding invariant_def p by (simp add: initialTrainer_def statsOk_empty)
qed

lemma invariant_counts: "invariant s \<Longrightarrow> totalAttempts s = totalCorrect s + totalMiss s"
  by (simp add: invariant_def)

lemma setModeAndReset_invariant:
  assumes "invariant s" "wf_rng g"
  shows "invariant (setModeAndReset m g clk s)"
  unfolding setModeAndReset_def
  using invariant_counts [OF assms(1)] invariant_statsOk [OF assms(1)]
  by (intro resetQuestion_invariant [OF assms(2)]) (simp_all add: noOverrides_def)

lemma toggleRunning_invariant:
  assumes "invariant s"
  shows "invariant (toggleRunning s)"
proof -
  have p: "pool (toggleRunning s) = pool s" by (rule pool_cong) (simp_all add: toggleRunning_def)
  show ?thesis unfolding invariant_def p using assms by (simp add: invariant_def toggleRunning_def)
qed

lemma resetAll_invariant:
  assumes "wf_rng g"
  shows "invariant (resetAll g clk s)"
  unfolding resetAll_def
  by (intro resetQuestion_invariant [OF assms]) (simp_all add: noOverrides_def statsOk_empty)

lemma setDigitsSettingsAndReset_invariant:
  assumes "invariant s" "wf_rng g" "mode s = Digits"
  shows "invariant (setDigitsSettingsAndReset next g clk s)"
  unfolding setDigitsSettingsAndReset_def
  using invariant_counts [OF assms(1)] invariant_statsOk [OF assms(1)] assms(3)
  by (intro resetQuestion_invariant [OF assms(2)]) (simp_all add: noOverrides_def)

lemma enableAllInCurrentMode_invariant:
  assumes "invariant s" "wf_rng g"
  shows "invariant (enableAllInCurrentMode g clk s)"
proof (cases "mode s")
  case Single
  have "invariant (resetQuestion Single (noOverrides\<lparr>ovEnabledSingle := Some (initEnabledMap SINGLE_SYMBOLS)\<rparr>) g clk
                 (s\<lparr>enabledSingle := initEnabledMap SINGLE_SYMBOLS\<rparr>))"
    using invariant_counts [OF assms(1)] invariant_statsOk [OF assms(1)] Single
    by (intro resetQuestion_invariant [OF assms(2)]) (simp_all add: noOverrides_def)
  then show ?thesis using Single by (simp add: enableAllInCurrentMode_def Let_def)
next
  case Combo
  have "invariant (resetQuestion Combo (noOverrides\<lparr>ovEnabledCombo := Some (initEnabledMap COMBOS)\<rparr>) g clk
                 (s\<lparr>enabledCombo := initEnabledMap COMBOS\<rparr>))"
    using invariant_counts [OF assms(1)] invariant_statsOk [OF assms(1)] Combo
    by (intro resetQuestion_invariant [OF assms(2)]) (simp_all add: noOverrides_def)
  then show ?thesis using Combo by (simp add: enableAllInCurrentMode_def Let_def)
next
  case Digits
  then show ?thesis using assms(1) by (simp add: enableAllInCurrentMode_def)
qed

lemma disableAllInCurrentMode_invariant:
  assumes "invariant s" "wf_rng g"
  shows "invariant (disableAllInCurrentMode g clk s)"
proof (cases "mode s")
  case Single
  define nxt where "nxt = map_of (map (\<lambda>item. (item, False)) (basePool s))"
  have "invariant (resetQuestion Single (noOverrides\<lparr>ovEnabledSingle := Some nxt\<rparr>) g clk
                 (s\<lparr>enabledSingle := nxt\<rparr>))"
    using invariant_counts [OF assms(1)] invariant_statsOk [OF assms(1)] Single
    by (intro resetQuestion_invariant [OF assms(2)]) (simp_all add: noOverrides_def)
  then show ?thesis using Single by (simp add: disableAllInCurrentMode_def Let_def nxt_def)
next
  case Combo
  define nxt where "nxt = map_of (map (\<lambda>item. (item, False)) (basePool s))"
  have "invariant (resetQuestion Combo (noOverrides\<lparr>ovEnabledCombo := Some nxt\<rparr>) g clk
                 (s\<lparr>enabledCombo := nxt\<rparr>))"
    using invariant_counts [OF assms(1)] invariant_statsOk [OF assms(1)] Combo
    by (intro resetQuestion_invariant [OF assms(2)]) (simp_all add: noOverrides_def)
  then show ?thesis using Combo by (simp add: disableAllInCurrentMode_def Let_def nxt_def)
next
  case Digits
  then show ?thesis using assms(1) by (simp add: disableAllInCurrentMode_def)
qed

lemma setEnabledForItemInCurrentMode_invariant:
  assumes "invariant s" "wf_rng g"
  shows "invariant (setEnabledForItemInCurrentMode it en g clk s)"
proof (cases "mode s")
  case Single
  have "invariant (resetQuestion Single (noOverrides\<lparr>ovEnabledSingle := Some ((enabledSingle s)(it \<mapsto> en))\<rparr>) g clk
                 (s\<lparr>enabledSingle := (enabledSingle s)(it \<mapsto> en)\<rparr>))"
    using invariant_counts [OF assms(1)] invariant_statsOk [OF assms(1)] Single
    by (intro resetQuestion_invariant [OF assms(2)]) (simp_all add: noOverrides_def)
  then show ?thesis using Single by (simp add: setEnabledForItemInCurrentMode_def Let_def)
next
  case Combo
  have "invariant (resetQuestion Combo (noOverrides\<lparr>ovEnabledCombo := Some ((enabledCombo s)(it \<mapsto> en))\<rparr>) g clk
                 (s\<lparr>enabledCombo := (enabledCombo s)(it \<mapsto> en)\<rparr>))"
    using invariant_counts [OF assms(1)] invariant_statsOk [OF assms(1)] Combo
    by (intro resetQuestion_invariant [OF assms(2)]) (simp_all add: noOverrides_def)
  then show ?thesis using Combo by (simp add: setEnabledForItemInCurrentMode_def Let_def)
next
  case Digits
  then show ?thesis using assms(1) by (simp add: setEnabledForItemInCurrentMode_def)
qed

lemma step_invariant:
  assumes "step s s'" "invariant s"
  shows "invariant s'"
  using assms
proof (induction rule: step.induct)
  case (keyDown g s e clk)
  then show ?case by (simp add: onKeyDown_invariant)
next
  case (setMode g s m clk)
  then show ?case by (simp add: setModeAndReset_invariant)
next
  case (toggle s)
  then show ?case by (simp add: toggleRunning_invariant)
next
  case (reset g s clk)
  then show ?case by (simp add: resetAll_invariant)
next
  case (setDigits s g "next" clk)
  then show ?case by (simp add: setDigitsSettingsAndReset_invariant)
next
  case (enableAll g s clk)
  then show ?case by (simp add: enableAllInCurrentMode_invariant)
next
  case (disableAll g s clk)
  then show ?case by (simp add: disableAllInCurrentMode_invariant)
next
  case (setEnabled g s it enabled clk)
  then show ?case by (simp add: setEnabledForItemInCurrentMode_invariant)
qed

lemma reachable_invariant: "reachable s \<Longrightarrow> invariant s"
  by (induction rule: reachable.induct) (auto intro: initialTrainer_invariant step_invariant)

text \<open>The settings of every reachable state are valid.\<close>

lemma validSettings_initial: "validSettings initialDigitsSettings"
  by (simp add: validSettings_def initialDigitsSettings_def trunc_def)

lemma validSettings_normalized: "validSettings (normalized next)"
proof -
  define a where "a = clampInt (minIntDigits next) 1 50"
  define b where "b = clampInt (maxIntDigits next) 1 50"
  define c where "c = clampInt (minFracDigits next) 1 50"
  define d where "d = clampInt (maxFracDigits next) 1 50"
  have r: "1 \<le> a" "a \<le> 50" "1 \<le> b" "b \<le> 50" "1 \<le> c" "c \<le> 50" "1 \<le> d" "d \<le> 50"
    using clampInt_bounds [of 1 50] by (simp_all add: a_def b_def c_def d_def)
  have n: "normalized next =
      next\<lparr>minIntDigits := Num (real_of_int (min a b)), maxIntDigits := Num (real_of_int b),
           minFracDigits := Num (real_of_int (min c d)), maxFracDigits := Num (real_of_int d)\<rparr>"
    by (simp add: normalized_def Let_def a_def b_def c_def d_def)
  have k: "clampInt (Num (real_of_int (min a b))) 1 50 = min a b"
    "clampInt (Num (real_of_int b)) 1 50 = b"
    "clampInt (Num (real_of_int (min c d))) 1 50 = min c d"
    "clampInt (Num (real_of_int d)) 1 50 = d"
    using r by (simp_all add: clampInt_of_int)
  show ?thesis unfolding n validSettings_def by (simp add: k del: clampInt.simps)
qed

lemma digitsSettings_onKeyDown [simp]: "digitsSettings (onKeyDown e g clk s) = digitsSettings s"
proof (cases e g clk s rule: onKeyDown_cases)
  case ignored
  then show ?thesis by simp
next
  case backspace
  then show ?thesis by (simp add: onKeyDown_backspace)
next
  case digits
  show ?thesis unfolding onKeyDown_digits [OF digits] by (simp add: completion_def Let_def)
next
  case symbols
  show ?thesis unfolding onKeyDown_symbols [OF symbols] by (simp add: completion_def Let_def)
qed

lemma step_digitsSettings:
  assumes "step s s'"
  shows "digitsSettings s' = digitsSettings s \<or> (\<exists>next. digitsSettings s' = normalized next)"
  using assms
proof (induction rule: step.induct)
  case (setDigits s g "next" clk)
  then show ?case by (auto simp: digitsSettings_setDigitsSettingsAndReset)
qed (simp_all add: setModeAndReset_def toggleRunning_def resetAll_def
      enableAllInCurrentMode_def disableAllInCurrentMode_def setEnabledForItemInCurrentMode_def Let_def)

lemma reachable_validSettings: "reachable s \<Longrightarrow> validSettings (digitsSettings s)"
proof (induction rule: reachable.induct)
  case (initial g clk)
  then show ?case by (simp add: initialTrainer_def validSettings_initial)
next
  case (after s s')
  then show ?case using step_digitsSettings [of s s'] by (auto simp: validSettings_normalized)
qed

section \<open>Facts about the concrete runs\<close>

lemma bumpStat_failure:
  "bumpStat it False e m =
     m(it \<mapsto> \<lparr>attempts = attempts (current m it) + 1, correct = correct (current m it),
               totalMs = totalMs (current m it)\<rparr>)"
  by (cases e) (simp_all add: bumpStat_def Let_def)

lemma bumpStat_success:
  "bumpStat it True (Some d) m =
     m(it \<mapsto> \<lparr>attempts = attempts (current m it) + 1, correct = correct (current m it) + 1,
               totalMs = totalMs (current m it) + d\<rparr>)"
  by (simp add: bumpStat_def Let_def)

lemma wf_rng_zero: "wf_rng (constRng 0)"
  by (simp add: wf_rng_constRng)

lemma singleStart_fields:
  "mode singleStart = Single" "isRunning singleStart" "target singleStart = ''(''"
  "typed singleStart = []" "progress singleStart = []"
  "totalAttempts singleStart = 0" "totalCorrect singleStart = 0" "totalMiss singleStart = 0"
  "totalBackspace singleStart = 0" "statsByItem singleStart = Map.empty"
  "shownAt singleStart = 0" "lastTimeMs singleStart = None"
  by (simp_all add: singleStart_def initialTrainer_def pickRandom_def constRng_def SINGLE_SYMBOLS_def)

lemma comboStart_fields:
  "mode comboStart = Combo" "isRunning comboStart" "target comboStart = ''=>''"
  "typed comboStart = []" "progress comboStart = []"
  "totalAttempts comboStart = 0" "totalCorrect comboStart = 0" "totalMiss comboStart = 0"
  "totalBackspace comboStart = 0" "statsByItem comboStart = Map.empty"
  "shownAt comboStart = 0" "lastTimeMs comboStart = None"
  by (simp_all add: comboStart_def setModeAndReset_def singleStart_fields resetQuestion_def
      noOverrides_def Let_def singleStart_def initialTrainer_def initEnabledMap_not_False
      pickRandom_def constRng_def COMBOS_def)

lemma digitsStart_fields:
  "mode digitsStart = Digits" "isRunning digitsStart" "target digitsStart = ''100''"
  "typed digitsStart = []" "progress digitsStart = []"
  "totalAttempts digitsStart = 0" "totalCorrect digitsStart = 0" "totalMiss digitsStart = 0"
  "totalBackspace digitsStart = 0" "statsByItem digitsStart = Map.empty"
  "shownAt digitsStart = 0" "lastTimeMs digitsStart = None"
  by (simp_all add: digitsStart_def setModeAndReset_def singleStart_fields resetQuestion_def
      noOverrides_def singleStart_def initialTrainer_def initialDigitsSettings_def gen_eval)

lemma reachable_singleStart: "reachable singleStart"
  unfolding singleStart_def by (rule reachable.initial [OF wf_rng_zero])

lemma reachable_comboStart: "reachable comboStart"
  unfolding comboStart_def
  by (rule reachable.after [OF reachable_singleStart step.setMode [OF wf_rng_zero]])

lemma reachable_digitsStart: "reachable digitsStart"
  unfolding digitsStart_def
  by (rule reachable.after [OF reachable_singleStart step.setMode [OF wf_rng_zero]])

lemma printableKey_plainKey: "printableKey (plainKey k) = (length k = 1)"
  by (simp add: printableKey_def plainKey_def)

lemma backspaceKey_plainKey: "backspaceKey (plainKey k) = (k = ''Backspace'')"
  by (simp add: backspaceKey_def plainKey_def)

lemma key_plainKey [simp]: "key (plainKey k) = k"
  by (simp add: plainKey_def)

lemma comboTyped_eq: "comboTyped = comboStart\<lparr>typed := ''='', progress := ''=''\<rparr>"
  unfolding comboTyped_def
  by (subst onKeyDown_symbols) (simp_all add: comboStart_fields printableKey_plainKey)

lemma digitsTyped_eq: "digitsTyped = digitsStart\<lparr>typed := ''1'', progress := ''1''\<rparr>"
  unfolding digitsTyped_def
  by (subst onKeyDown_digits)
    (simp_all add: digitsStart_fields printableKey_plainKey expectedChar_def)

lemma reachable_comboTyped: "reachable comboTyped"
  unfolding comboTyped_def
  by (rule reachable.after [OF reachable_comboStart step.keyDown [OF wf_rng_zero]])

lemma reachable_digitsTyped: "reachable digitsTyped"
  unfolding digitsTyped_def
  by (rule reachable.after [OF reachable_digitsStart step.keyDown [OF wf_rng_zero]])

lemma completion_counters [simp]:
  "totalAttempts (completion g clk s) = totalAttempts s + 1"
  "totalCorrect (completion g clk s) = totalCorrect s + 1"
  "totalMiss (completion g clk s) = totalMiss s"
  "totalBackspace (completion g clk s) = totalBackspace s"
  "lastTimeMs (completion g clk s) = Some (clk 0 - shownAt s)"
  "statsByItem (completion g clk s) = bumpStat (target s) True (Some (clk 0 - shownAt s)) (statsByItem s)"
  "mode (completion g clk s) = mode s"
  "isRunning (completion g clk s) = isRunning s"
  by (simp_all add: completion_def Let_def)

lemma completion_draws:
  assumes "mode s = Digits \<or> pool s \<noteq> []"
  shows "typed (completion g clk s) = []" "progress (completion g clk s) = []"
    "shownAt (completion g clk s) = clk 1"
    "target (completion g clk s) =
       (if mode s = Digits then generateDigitsTarget (digitsSettings s) g
        else pickRandom (g 0) (pool s))"
proof -
  define s2 where "s2 = s\<lparr>lastTimeMs := Some (clk 0 - shownAt s),
              totalAttempts := totalAttempts s + 1,
              totalCorrect := totalCorrect s + 1,
              statsByItem := bumpStat (target s) True (Some (clk 0 - shownAt s)) (statsByItem s)\<rparr>"
  have c: "completion g clk s = nextQuestion g (shift 1 clk) s2"
    by (simp add: completion_def Let_def s2_def)
  have p: "pool s2 = pool s" by (rule pool_cong) (simp_all add: s2_def)
  have m: "mode s2 = mode s" "digitsSettings s2 = digitsSettings s" by (simp_all add: s2_def)
  have a: "mode s2 = Digits \<or> pool s2 \<noteq> []" using assms by (simp add: p m)
  show "typed (completion g clk s) = []" "progress (completion g clk s) = []"
    "shownAt (completion g clk s) = clk 1"
    "target (completion g clk s) =
       (if mode s = Digits then generateDigitsTarget (digitsSettings s) g
        else pickRandom (g 0) (pool s))"
    unfolding c by (simp_all add: nextQuestion_draws [OF a] p m shift_def)
qed

lemma comboTyped_fields:
  "mode comboTyped = Combo" "isRunning comboTyped" "target comboTyped = ''=>''"
  "typed comboTyped = ''=''" "progress comboTyped = ''=''"
  "totalAttempts comboTyped = 0" "totalCorrect comboTyped = 0" "totalMiss comboTyped = 0"
  "statsByItem comboTyped = Map.empty" "shownAt comboTyped = 0"
  by (simp_all add: comboTyped_eq comboStart_fields)

lemma pool_comboTyped: "pool comboTyped = COMBOS"
  by (simp add: pool_def basePool_def enabledMapOf_def comboTyped_fields comboTyped_eq
      comboStart_def setModeAndReset_def singleStart_def initialTrainer_def initEnabledMap_not_False)

lemma pool_singleStart: "pool singleStart = SINGLE_SYMBOLS"
  by (simp add: pool_def basePool_def enabledMapOf_def singleStart_def initialTrainer_def
      initEnabledMap_not_False)

lemma miss_singleStart:
  assumes "mode s = Single" "isRunning s" "target s = ''(''" "progress s = []"
  shows "onKeyDown (plainKey ''x'') g clk s =
           s\<lparr>typed := typed s @ ''x'',
             totalAttempts := totalAttempts s + 1,
             totalMiss := totalMiss s + 1,
             statsByItem := bumpStat ''('' False None (statsByItem s),
             progress := []\<rparr>"
  by (subst onKeyDown_symbols) (simp_all add: assms printableKey_plainKey)

lemma singleMissed_eq:
  "singleMissed =
     singleStart\<lparr>typed := ''xxx'', totalAttempts := 3, totalMiss := 3,
       statsByItem := [''('' \<mapsto> \<lparr>attempts = 3, correct = 0, totalMs = 0\<rparr>], progress := []\<rparr>"
  unfolding singleMissed_def
  by (simp add: miss_singleStart singleStart_fields bumpStat_failure current_def eval_nat_numeral)

lemma reachable_singleMissed: "reachable singleMissed"
  unfolding singleMissed_def
  by (intro reachable.after [OF _ step.keyDown [OF wf_rng_zero]] reachable_singleStart)

lemma reachable_singleSolved: "reachable singleSolved"
  unfolding singleSolved_def
  by (rule reachable.after [OF reachable_singleMissed step.keyDown [OF wf_rng_zero]])

lemma pool_singleMissed: "pool singleMissed = SINGLE_SYMBOLS"
  unfolding pool_singleStart [symmetric] by (rule pool_cong) (simp_all add: singleMissed_eq)

lemma singleSolved_fields:
  "mode singleSolved = Single" "isRunning singleSolved" "target singleSolved = ''(''"
  "typed singleSolved = []" "progress singleSolved = []"
  "totalAttempts singleSolved = 4" "totalCorrect singleSolved = 1" "totalMiss singleSolved = 3"
  "lastTimeMs singleSolved = Some 500"
  "statsByItem singleSolved = [''('' \<mapsto> \<lparr>attempts = 4, correct = 1, totalMs = 500\<rparr>]"
proof -
  define s1 where
    "s1 = singleMissed\<lparr>typed := typed singleMissed @ ''('', progress := progress singleMissed @ ''(''\<rparr>"
  have eq: "singleSolved = completion (constRng 0) (constRng 500) s1"
    unfolding singleSolved_def s1_def
    by (subst onKeyDown_symbols)
      (simp_all add: singleMissed_eq singleStart_fields printableKey_plainKey)
  have p: "pool s1 = SINGLE_SYMBOLS"
    unfolding pool_singleMissed [symmetric] by (rule pool_cong) (simp_all add: s1_def)
  have a: "mode s1 = Digits \<or> pool s1 \<noteq> []"
    by (simp add: p SINGLE_SYMBOLS_def)
  have f: "mode s1 = Single" "isRunning s1" "target s1 = ''(''" "totalAttempts s1 = 3"
    "totalCorrect s1 = 0" "totalMiss s1 = 3" "shownAt s1 = 0"
    "statsByItem s1 = [''('' \<mapsto> \<lparr>attempts = 3, correct = 0, totalMs = 0\<rparr>]"
    by (simp_all add: s1_def singleMissed_eq singleStart_fields)
  show "mode singleSolved = Single" "isRunning singleSolved" "target singleSolved = ''(''"
    "typed singleSolved = []" "progress singleSolved = []"
    "totalAttempts singleSolved = 4" "totalCorrect singleSolved = 1" "totalMiss singleSolved = 3"
    "lastTimeMs singleSolved = Some 500"
    "statsByItem singleSolved = [''('' \<mapsto> \<lparr>attempts = 4, correct = 1, totalMs = 500\<rparr>]"
    unfolding eq
    by (simp_all add: completion_draws [OF a] p f bumpStat_success current_def
        pickRandom_def constRng_def SINGLE_SYMBOLS_def)
qed

section \<open>What a key does\<close>

text \<open>
  Claim C1, as amended. In single or combo mode, in a reachable state that is running
  with a non-empty target, take a key event with no meta, ctrl or alt modifier held
  whose key is one character, such that the target starts with progress followed by
  the key. If progress followed by the key is not yet the target, the key is appended
  to progress (and to typed) and nothing else changes. If it is the target, the attempt
  is a completion: total attempts and total correct each increase by 1 and total miss
  stays, the time from \<open>shownAt\<close> to the first clock reading is recorded as the last
  time, the statistic of the target gets one more attempt, one more success and that
  duration added, and a new target is drawn from the pool, with typed and progress
  empty and \<open>shownAt\<close> set to the next clock reading.
\<close>

theorem symbols_match:
  assumes "reachable s" "wf_rng g"
    and "isRunning s" "target s \<noteq> []" "mode s \<noteq> Digits" "printableKey e"
    and "prefix (progress s @ key e) (target s)"
  shows "(progress s @ key e \<noteq> target s \<longrightarrow>
            onKeyDown e g clk s = s\<lparr>typed := typed s @ key e, progress := progress s @ key e\<rparr>)
       \<and> (progress s @ key e = target s \<longrightarrow>
            totalAttempts (onKeyDown e g clk s) = totalAttempts s + 1
          \<and> totalCorrect (onKeyDown e g clk s) = totalCorrect s + 1
          \<and> totalMiss (onKeyDown e g clk s) = totalMiss s
          \<and> lastTimeMs (onKeyDown e g clk s) = Some (clk 0 - shownAt s)
          \<and> statsByItem (onKeyDown e g clk s) =
               (statsByItem s)(target s \<mapsto>
                 \<lparr>attempts = attempts (current (statsByItem s) (target s)) + 1,
                  correct = correct (current (statsByItem s) (target s)) + 1,
                  totalMs = totalMs (current (statsByItem s) (target s)) + (clk 0 - shownAt s)\<rparr>)
          \<and> target (onKeyDown e g clk s) = pickRandom (g 0) (pool s)
          \<and> target (onKeyDown e g clk s) \<in> set (pool s)
          \<and> typed (onKeyDown e g clk s) = []
          \<and> progress (onKeyDown e g clk s) = []
          \<and> shownAt (onKeyDown e g clk s) = clk 1)"
proof -
  note eq = onKeyDown_symbols [OF assms(3-6), of g clk]
  have inv: "invariant s" using assms(1) by (rule reachable_invariant)
  have pl: "pool s \<noteq> []" using invariant_pool_nonempty [OF inv assms(4)] assms(5) by simp
  let ?s1 = "s\<lparr>typed := typed s @ key e, progress := progress s @ key e\<rparr>"
  have p: "pool ?s1 = pool s" by (rule pool_cong) simp_all
  have a: "mode ?s1 = Digits \<or> pool ?s1 \<noteq> []" using pl by (simp add: p)
  have r: "0 \<le> g 0" "g 0 < 1" using assms(2) by (simp_all add: wf_rng_def)
  have pick: "pickRandom (g 0) (pool s) \<in> set (pool s)" using pickRandom_in_set [OF r pl] .
  show ?thesis
  proof (cases "progress s @ key e = target s")
    case True
    have ok: "onKeyDown e g clk s = completion g clk ?s1"
      using True assms(7) by (simp add: eq)
    have f: "totalAttempts (completion g clk ?s1) = totalAttempts s + 1"
      "totalCorrect (completion g clk ?s1) = totalCorrect s + 1"
      "totalMiss (completion g clk ?s1) = totalMiss s"
      "lastTimeMs (completion g clk ?s1) = Some (clk 0 - shownAt s)"
      "statsByItem (completion g clk ?s1) =
         (statsByItem s)(target s \<mapsto>
           \<lparr>attempts = attempts (current (statsByItem s) (target s)) + 1,
            correct = correct (current (statsByItem s) (target s)) + 1,
            totalMs = totalMs (current (statsByItem s) (target s)) + (clk 0 - shownAt s)\<rparr>)"
      "target (completion g clk ?s1) = pickRandom (g 0) (pool s)"
      "typed (completion g clk ?s1) = []"
      "progress (completion g clk ?s1) = []"
      "shownAt (completion g clk ?s1) = clk 1"
      using assms(5) by (simp_all add: completion_draws [OF a] p bumpStat_success)
    show ?thesis unfolding ok f using pick True by simp
  next
    case False
    then show ?thesis using assms(7) by (simp add: eq)
  qed
qed

theorem symbols_match_witness:
  "reachable comboTyped \<and> wf_rng (constRng 0) \<and> isRunning comboTyped
   \<and> target comboTyped = ''=>'' \<and> mode comboTyped = Combo \<and> progress comboTyped = ''=''
   \<and> printableKey (plainKey ''>'')
   \<and> prefix (progress comboTyped @ key (plainKey ''>'')) (target comboTyped)
   \<and> totalAttempts (onKeyDown (plainKey ''>'') (constRng 0) (constRng 250) comboTyped) = 1
   \<and> totalCorrect (onKeyDown (plainKey ''>'') (constRng 0) (constRng 250) comboTyped) = 1
   \<and> totalMiss (onKeyDown (plainKey ''>'') (constRng 0) (constRng 250) comboTyped) = 0
   \<and> lastTimeMs (onKeyDown (plainKey ''>'') (constRng 0) (constRng 250) comboTyped) = Some 250
   \<and> statsByItem (onKeyDown (plainKey ''>'') (constRng 0) (constRng 250) comboTyped) ''=>''
       = Some \<lparr>attempts = 1, correct = 1, totalMs = 250\<rparr>
   \<and> target (onKeyDown (plainKey ''>'') (constRng 0) (constRng 250) comboTyped) = ''=>''
   \<and> typed (onKeyDown (plainKey ''>'') (constRng 0) (constRng 250) comboTyped) = []
   \<and> progress (onKeyDown (plainKey ''>'') (constRng 0) (constRng 250) comboTyped) = []
   \<and> shownAt (onKeyDown (plainKey ''>'') (constRng 0) (constRng 250) comboTyped) = 250"
  using symbols_match [OF reachable_comboTyped wf_rng_zero, of "plainKey ''>''" "constRng 250"]
  by (simp add: reachable_comboTyped wf_rng_zero comboTyped_fields printableKey_plainKey
      current_def pool_comboTyped pickRandom_def COMBOS_def constRng_def wf_rng_def)

text \<open>
  The claim as stated fails when a modifier is held: with ctrl held, the key \<open>=\<close> on the
  target \<open>=>\<close> leaves progress empty.
\<close>

theorem symbols_match_modifier_counterexample:
  "reachable comboStart
   \<and> isRunning comboStart \<and> target comboStart = ''=>'' \<and> mode comboStart = Combo
   \<and> progress comboStart = []
   \<and> length (key \<lparr>key = ''='', metaKey = False, ctrlKey = True, altKey = False\<rparr>) = 1
   \<and> prefix (progress comboStart @ ''='') (target comboStart)
   \<and> progress (onKeyDown \<lparr>key = ''='', metaKey = False, ctrlKey = True, altKey = False\<rparr>
         (constRng 0) (constRng 0) comboStart) = []
   \<and> progress (onKeyDown \<lparr>key = ''='', metaKey = False, ctrlKey = True, altKey = False\<rparr>
         (constRng 0) (constRng 0) comboStart) \<noteq> progress comboStart @ ''=''"
  by (simp add: reachable_comboStart comboStart_fields onKeyDown_ignored)

text \<open>
  Claim C2, as amended. In single or combo mode, while running with a non-empty target,
  take a key event with no meta, ctrl or alt modifier held whose key is one character,
  such that the target does not start with progress followed by the key. Then total
  attempts and total miss each increase by 1, the statistic of the target gets one
  more attempt with its successes and its accumulated duration unchanged, progress
  becomes empty, and typed is not reset: the key is appended to it. Nothing else
  changes.
\<close>

theorem symbols_mismatch:
  assumes "isRunning s" "target s \<noteq> []" "mode s \<noteq> Digits" "printableKey e"
    and "\<not> prefix (progress s @ key e) (target s)"
  shows "onKeyDown e g clk s =
           s\<lparr>typed := typed s @ key e,
             totalAttempts := totalAttempts s + 1,
             totalMiss := totalMiss s + 1,
             statsByItem := (statsByItem s)(target s \<mapsto>
               \<lparr>attempts = attempts (current (statsByItem s) (target s)) + 1,
                correct = correct (current (statsByItem s) (target s)),
                totalMs = totalMs (current (statsByItem s) (target s))\<rparr>),
             progress := []\<rparr>"
  using assms(5) by (simp add: onKeyDown_symbols [OF assms(1-4)] bumpStat_failure)

theorem symbols_mismatch_witness:
  "isRunning singleStart \<and> target singleStart = ''('' \<and> mode singleStart = Single
   \<and> printableKey (plainKey ''x'')
   \<and> \<not> prefix (progress singleStart @ key (plainKey ''x'')) (target singleStart)
   \<and> totalAttempts (onKeyDown (plainKey ''x'') (constRng 0) (constRng 0) singleStart) = 1
   \<and> totalMiss (onKeyDown (plainKey ''x'') (constRng 0) (constRng 0) singleStart) = 1
   \<and> totalCorrect (onKeyDown (plainKey ''x'') (constRng 0) (constRng 0) singleStart) = 0
   \<and> progress (onKeyDown (plainKey ''x'') (constRng 0) (constRng 0) singleStart) = []
   \<and> typed (onKeyDown (plainKey ''x'') (constRng 0) (constRng 0) singleStart) = ''x''
   \<and> statsByItem (onKeyDown (plainKey ''x'') (constRng 0) (constRng 0) singleStart) ''(''
       = Some \<lparr>attempts = 1, correct = 0, totalMs = 0\<rparr>"
  using symbols_mismatch [of singleStart "plainKey ''x''" "constRng 0" "constRng 0"]
  by (simp add: singleStart_fields printableKey_plainKey current_def)

text \<open>
  The claim as stated fails when a modifier is held: with alt held, the key \<open>x\<close> on the
  target \<open>(\<close> is not counted and is not appended to typed.
\<close>

theorem symbols_mismatch_modifier_counterexample:
  "reachable singleStart
   \<and> isRunning singleStart \<and> target singleStart = ''('' \<and> mode singleStart = Single
   \<and> length (key \<lparr>key = ''x'', metaKey = False, ctrlKey = False, altKey = True\<rparr>) = 1
   \<and> \<not> prefix (progress singleStart @ ''x'') (target singleStart)
   \<and> totalAttempts singleStart = 0 \<and> totalMiss singleStart = 0
   \<and> totalAttempts (onKeyDown \<lparr>key = ''x'', metaKey = False, ctrlKey = False, altKey = True\<rparr>
         (constRng 0) (constRng 0) singleStart) = 0
   \<and> totalMiss (onKeyDown \<lparr>key = ''x'', metaKey = False, ctrlKey = False, altKey = True\<rparr>
         (constRng 0) (constRng 0) singleStart) = 0
   \<and> typed (onKeyDown \<lparr>key = ''x'', metaKey = False, ctrlKey = False, altKey = True\<rparr>
         (constRng 0) (constRng 0) singleStart) = []"
  by (simp add: reachable_singleStart singleStart_fields onKeyDown_ignored)

text \<open>
  Claim C3, as amended. In digits mode, while running with a non-empty target, take a
  key event with no meta, ctrl or alt modifier held whose key is one character other
  than the expected character \<open>target[progress.length]\<close> (no character is expected once
  progress is as long as the target). Then total attempts and total miss each increase
  by 1 and the statistic of the target gets one more attempt with its successes and
  its accumulated duration unchanged; progress and typed, like every other field, are
  left as they were.
\<close>

theorem digits_mismatch:
  assumes "isRunning s" "target s \<noteq> []" "mode s = Digits" "printableKey e"
    and "key e \<noteq> expectedChar (target s) (progress s)"
  shows "onKeyDown e g clk s =
           s\<lparr>totalAttempts := totalAttempts s + 1,
             totalMiss := totalMiss s + 1,
             statsByItem := (statsByItem s)(target s \<mapsto>
               \<lparr>attempts = attempts (current (statsByItem s) (target s)) + 1,
                correct = correct (current (statsByItem s) (target s)),
                totalMs = totalMs (current (statsByItem s) (target s))\<rparr>)\<rparr>
         \<and> progress (onKeyDown e g clk s) = progress s
         \<and> typed (onKeyDown e g clk s) = typed s"
  using assms(5) by (simp add: onKeyDown_digits [OF assms(1-4)] bumpStat_failure)

theorem digits_mismatch_witness:
  "isRunning digitsTyped \<and> target digitsTyped = ''100'' \<and> mode digitsTyped = Digits
   \<and> progress digitsTyped = ''1'' \<and> typed digitsTyped = ''1''
   \<and> printableKey (plainKey ''9'')
   \<and> expectedChar (target digitsTyped) (progress digitsTyped) = ''0''
   \<and> totalAttempts (onKeyDown (plainKey ''9'') (constRng 0) (constRng 0) digitsTyped) = 1
   \<and> totalMiss (onKeyDown (plainKey ''9'') (constRng 0) (constRng 0) digitsTyped) = 1
   \<and> progress (onKeyDown (plainKey ''9'') (constRng 0) (constRng 0) digitsTyped) = ''1''
   \<and> typed (onKeyDown (plainKey ''9'') (constRng 0) (constRng 0) digitsTyped) = ''1''
   \<and> statsByItem (onKeyDown (plainKey ''9'') (constRng 0) (constRng 0) digitsTyped) ''100''
       = Some \<lparr>attempts = 1, correct = 0, totalMs = 0\<rparr>"
  using digits_mismatch [of digitsTyped "plainKey ''9''" "constRng 0" "constRng 0"]
  by (simp add: digitsTyped_eq digitsStart_fields printableKey_plainKey expectedChar_def current_def)

text \<open>
  The claim as stated fails when a modifier is held: with meta held, the wrong key \<open>9\<close>
  is not counted at all.
\<close>

theorem digits_mismatch_modifier_counterexample:
  "reachable digitsTyped
   \<and> isRunning digitsTyped \<and> target digitsTyped = ''100'' \<and> mode digitsTyped = Digits
   \<and> progress digitsTyped = ''1''
   \<and> length (key \<lparr>key = ''9'', metaKey = True, ctrlKey = False, altKey = False\<rparr>) = 1
   \<and> expectedChar (target digitsTyped) (progress digitsTyped) = ''0''
   \<and> totalAttempts digitsTyped = 0 \<and> totalMiss digitsTyped = 0
   \<and> totalAttempts (onKeyDown \<lparr>key = ''9'', metaKey = True, ctrlKey = False, altKey = False\<rparr>
         (constRng 0) (constRng 0) digitsTyped) = 0
   \<and> totalMiss (onKeyDown \<lparr>key = ''9'', metaKey = True, ctrlKey = False, altKey = False\<rparr>
         (constRng 0) (constRng 0) digitsTyped) = 0"
  by (simp add: reachable_digitsTyped [unfolded digitsTyped_eq] digitsTyped_eq digitsStart_fields
      onKeyDown_ignored expectedChar_def)

text \<open>
  Claim C6, as amended. In digits mode, while running with a non-empty target, a
  Backspace event with no meta, ctrl or alt modifier held increases the backspace
  counter by 1 and drops the last character of typed and of progress, an empty buffer
  staying empty; nothing else changes. Outside digits mode a Backspace event changes
  nothing.
\<close>

theorem digits_backspace:
  "(isRunning s \<and> target s \<noteq> [] \<and> mode s = Digits \<and> backspaceKey e \<longrightarrow>
      onKeyDown e g clk s =
        s\<lparr>totalBackspace := totalBackspace s + 1,
          typed := butlast (typed s), progress := butlast (progress s)\<rparr>
      \<and> (typed s = [] \<longrightarrow> typed (onKeyDown e g clk s) = [])
      \<and> (progress s = [] \<longrightarrow> progress (onKeyDown e g clk s) = []))
   \<and> (mode s \<noteq> Digits \<and> key e = ''Backspace'' \<longrightarrow> onKeyDown e g clk s = s)"
proof (intro conjI impI)
  assume a: "isRunning s \<and> target s \<noteq> [] \<and> mode s = Digits \<and> backspaceKey e"
  then show eq: "onKeyDown e g clk s =
        s\<lparr>totalBackspace := totalBackspace s + 1,
          typed := butlast (typed s), progress := butlast (progress s)\<rparr>"
    by (simp add: onKeyDown_backspace)
  show "typed (onKeyDown e g clk s) = []" if "typed s = []" using that by (simp add: eq)
  show "progress (onKeyDown e g clk s) = []" if "progress s = []" using that by (simp add: eq)
next
  assume "mode s \<noteq> Digits \<and> key e = ''Backspace''"
  then show "onKeyDown e g clk s = s" by (intro onKeyDown_ignored) simp
qed

theorem digits_backspace_witness:
  "isRunning digitsTyped \<and> target digitsTyped = ''100'' \<and> mode digitsTyped = Digits
   \<and> backspaceKey (plainKey ''Backspace'')
   \<and> progress digitsTyped = ''1'' \<and> typed digitsTyped = ''1''
   \<and> totalBackspace (onKeyDown (plainKey ''Backspace'') (constRng 0) (constRng 0) digitsTyped) = 1
   \<and> progress (onKeyDown (plainKey ''Backspace'') (constRng 0) (constRng 0) digitsTyped) = []
   \<and> typed (onKeyDown (plainKey ''Backspace'') (constRng 0) (constRng 0) digitsTyped) = []
   \<and> mode singleStart = Single
   \<and> onKeyDown (plainKey ''Backspace'') (constRng 0) (constRng 0) singleStart = singleStart"
  using digits_backspace [of digitsTyped "plainKey ''Backspace''" "constRng 0" "constRng 0"]
    digits_backspace [of singleStart "plainKey ''Backspace''" "constRng 0" "constRng 0"]
  by (simp add: digitsTyped_eq digitsStart_fields singleStart_fields backspaceKey_plainKey)

text \<open>
  The claim as stated fails when a modifier is held: with ctrl held, Backspace leaves
  the counter and both buffers as they were.
\<close>

theorem digits_backspace_modifier_counterexample:
  "reachable digitsTyped
   \<and> isRunning digitsTyped \<and> target digitsTyped = ''100'' \<and> mode digitsTyped = Digits
   \<and> typed digitsTyped = ''1'' \<and> progress digitsTyped = ''1''
   \<and> totalBackspace digitsTyped = 0
   \<and> totalBackspace (onKeyDown \<lparr>key = ''Backspace'', metaKey = False, ctrlKey = True, altKey = False\<rparr>
         (constRng 0) (constRng 0) digitsTyped) = 0
   \<and> typed (onKeyDown \<lparr>key = ''Backspace'', metaKey = False, ctrlKey = True, altKey = False\<rparr>
         (constRng 0) (constRng 0) digitsTyped) = ''1''
   \<and> progress (onKeyDown \<lparr>key = ''Backspace'', metaKey = False, ctrlKey = True, altKey = False\<rparr>
         (constRng 0) (constRng 0) digitsTyped) = ''1''"
  by (simp add: reachable_digitsTyped [unfolded digitsTyped_eq] digitsTyped_eq digitsStart_fields
      onKeyDown_ignored)

section \<open>What holds in every reachable state\<close>

lemma invariant_strict:
  assumes "invariant s"
  shows "progress s = [] \<or> strict_prefix (progress s) (target s)"
proof (cases "progress s = target s")
  case True
  then show ?thesis using assms by (simp add: invariant_def)
next
  case False
  then show ?thesis using assms by (simp add: invariant_def strict_prefix_def)
qed

text \<open>
  Claim C4. In every reachable state, in every mode, progress is a prefix of the target;
  in single and combo mode it is empty or a proper prefix of the target. Every
  transition from a reachable state (a key, Backspace, a completion, a mode change, a
  change of the pool or of the settings, a full reset, pausing) leads to a state where
  the same holds.
\<close>

theorem progress_prefix_of_target:
  assumes "reachable s"
  shows "prefix (progress s) (target s)
       \<and> (mode s \<noteq> Digits \<longrightarrow> progress s = [] \<or> strict_prefix (progress s) (target s))
       \<and> (\<forall>s'. step s s' \<longrightarrow>
             prefix (progress s') (target s')
             \<and> (mode s' \<noteq> Digits \<longrightarrow> progress s' = [] \<or> strict_prefix (progress s') (target s')))"
proof -
  have a: "prefix (progress t) (target t) \<and> (progress t = [] \<or> strict_prefix (progress t) (target t))"
    if "reachable t" for t
    using reachable_invariant [OF that] invariant_strict [of t] by (simp add: invariant_def)
  have "reachable s'" if "step s s'" for s'
    using assms that by (rule reachable.after)
  then show ?thesis using a [OF assms] a by blast
qed

theorem progress_prefix_of_target_witness:
  "reachable comboTyped \<and> progress comboTyped = ''='' \<and> target comboTyped = ''=>''
   \<and> mode comboTyped = Combo
   \<and> prefix (progress comboTyped) (target comboTyped)
   \<and> strict_prefix (progress comboTyped) (target comboTyped)
   \<and> step comboTyped (onKeyDown (plainKey ''x'') (constRng 0) (constRng 0) comboTyped)
   \<and> prefix (progress (onKeyDown (plainKey ''x'') (constRng 0) (constRng 0) comboTyped))
        (target (onKeyDown (plainKey ''x'') (constRng 0) (constRng 0) comboTyped))"
  using progress_prefix_of_target [OF reachable_comboTyped]
    step.keyDown [OF wf_rng_zero, of comboTyped "plainKey ''x''" "constRng 0"]
  by (simp add: reachable_comboTyped comboTyped_fields)

lemma onKeyDown_counters:
  "(totalAttempts (onKeyDown e g clk s) = totalAttempts s
      \<and> totalCorrect (onKeyDown e g clk s) = totalCorrect s
      \<and> totalMiss (onKeyDown e g clk s) = totalMiss s)
   \<or> (totalAttempts (onKeyDown e g clk s) = totalAttempts s + 1
      \<and> totalCorrect (onKeyDown e g clk s) = totalCorrect s + 1
      \<and> totalMiss (onKeyDown e g clk s) = totalMiss s)
   \<or> (totalAttempts (onKeyDown e g clk s) = totalAttempts s + 1
      \<and> totalCorrect (onKeyDown e g clk s) = totalCorrect s
      \<and> totalMiss (onKeyDown e g clk s) = totalMiss s + 1)"
proof (cases e g clk s rule: onKeyDown_cases)
  case ignored
  then show ?thesis by simp
next
  case backspace
  then show ?thesis by (simp add: onKeyDown_backspace)
next
  case digits
  show ?thesis unfolding onKeyDown_digits [OF digits] by simp
next
  case symbols
  show ?thesis unfolding onKeyDown_symbols [OF symbols] by simp
qed

text \<open>
  Claim C9. In every reachable state total attempts is total correct plus total miss,
  and no statistic has more successes than attempts. A key event leaves the three
  totals as they are, or adds 1 to attempts and to correct only, or adds 1 to attempts
  and to miss only. A full reset sets the three totals to 0.
\<close>

theorem counters_add_up:
  assumes "reachable s"
  shows "totalAttempts s = totalCorrect s + totalMiss s
       \<and> (\<forall>k st. statsByItem s k = Some st \<longrightarrow> correct st \<le> attempts st)
       \<and> (\<forall>e g clk.
             (totalAttempts (onKeyDown e g clk s) = totalAttempts s
                \<and> totalCorrect (onKeyDown e g clk s) = totalCorrect s
                \<and> totalMiss (onKeyDown e g clk s) = totalMiss s)
             \<or> (totalAttempts (onKeyDown e g clk s) = totalAttempts s + 1
                \<and> totalCorrect (onKeyDown e g clk s) = totalCorrect s + 1
                \<and> totalMiss (onKeyDown e g clk s) = totalMiss s)
             \<or> (totalAttempts (onKeyDown e g clk s) = totalAttempts s + 1
                \<and> totalCorrect (onKeyDown e g clk s) = totalCorrect s
                \<and> totalMiss (onKeyDown e g clk s) = totalMiss s + 1))
       \<and> (\<forall>g clk. totalAttempts (resetAll g clk s) = 0
                \<and> totalCorrect (resetAll g clk s) = 0
                \<and> totalMiss (resetAll g clk s) = 0)"
proof -
  have inv: "invariant s" using assms by (rule reachable_invariant)
  have 1: "totalAttempts s = totalCorrect s + totalMiss s" using inv by (rule invariant_counts)
  have 2: "\<forall>k st. statsByItem s k = Some st \<longrightarrow> correct st \<le> attempts st"
    using invariant_statsOk [OF inv] by (simp add: statsOk_def)
  have 4: "\<forall>g clk. totalAttempts (resetAll g clk s) = 0
                \<and> totalCorrect (resetAll g clk s) = 0
                \<and> totalMiss (resetAll g clk s) = 0"
    by (simp add: resetAll_def)
  show ?thesis using 1 2 4 onKeyDown_counters [of _ _ _ s] by blast
qed

theorem counters_add_up_witness:
  "reachable singleSolved
   \<and> totalAttempts singleSolved = 4 \<and> totalCorrect singleSolved = 1 \<and> totalMiss singleSolved = 3
   \<and> statsByItem singleSolved ''('' = Some \<lparr>attempts = 4, correct = 1, totalMs = 500\<rparr>
   \<and> correct \<lparr>attempts = 4, correct = 1, totalMs = 500\<rparr>
       \<le> attempts \<lparr>attempts = 4, correct = 1, totalMs = 500\<rparr>
   \<and> totalAttempts (onKeyDown (plainKey ''x'') (constRng 0) (constRng 0) singleSolved) = 5
   \<and> totalMiss (onKeyDown (plainKey ''x'') (constRng 0) (constRng 0) singleSolved) = 4
   \<and> totalCorrect (onKeyDown (plainKey ''x'') (constRng 0) (constRng 0) singleSolved) = 1
   \<and> totalAttempts (resetAll (constRng 0) (constRng 0) singleSolved) = 0
   \<and> totalCorrect (resetAll (constRng 0) (constRng 0) singleSolved) = 0
   \<and> totalMiss (resetAll (constRng 0) (constRng 0) singleSolved) = 0"
  using counters_add_up [OF reachable_singleSolved]
  by (simp add: reachable_singleSolved singleSolved_fields miss_singleStart)

lemma nextQuestion_same_or_cleared:
  "nextQuestion g clk s = s
   \<or> (typed (nextQuestion g clk s) = [] \<and> progress (nextQuestion g clk s) = [])"
  by (simp add: nextQuestion_def)

lemma completion_target_or_cleared:
  "target (completion g clk s) = target s
   \<or> (typed (completion g clk s) = [] \<and> progress (completion g clk s) = [])"
proof -
  define s2 where "s2 = s\<lparr>lastTimeMs := Some (clk 0 - shownAt s),
              totalAttempts := totalAttempts s + 1,
              totalCorrect := totalCorrect s + 1,
              statsByItem := bumpStat (target s) True (Some (clk 0 - shownAt s)) (statsByItem s)\<rparr>"
  have c: "completion g clk s = nextQuestion g (shift 1 clk) s2"
    by (simp add: completion_def Let_def s2_def)
  have t: "target s2 = target s" by (simp add: s2_def)
  show ?thesis
    unfolding c using nextQuestion_same_or_cleared [of g "shift 1 clk" s2] t by auto
qed

lemma onKeyDown_target_change:
  assumes "target (onKeyDown e g clk s) \<noteq> target s"
  shows "typed (onKeyDown e g clk s) = [] \<and> progress (onKeyDown e g clk s) = []"
proof (cases e g clk s rule: onKeyDown_cases)
  case ignored
  then show ?thesis using assms by simp
next
  case backspace
  then show ?thesis using assms by (simp add: onKeyDown_backspace)
next
  case digits
  let ?s1 = "s\<lparr>typed := progress s @ key e, progress := progress s @ key e\<rparr>"
  have "onKeyDown e g clk s = completion g clk ?s1"
    using assms unfolding onKeyDown_digits [OF digits] by (auto split: if_splits)
  then show ?thesis
    using assms completion_target_or_cleared [of g clk ?s1] by auto
next
  case symbols
  let ?s1 = "s\<lparr>typed := typed s @ key e, progress := progress s @ key e\<rparr>"
  have "onKeyDown e g clk s = completion g clk ?s1"
    using assms unfolding onKeyDown_symbols [OF symbols] by (auto split: if_splits)
  then show ?thesis
    using assms completion_target_or_cleared [of g clk ?s1] by auto
qed

lemma step_target_change:
  assumes "step s s'" "target s' \<noteq> target s"
  shows "typed s' = [] \<and> progress s' = []"
  using assms
proof (induction rule: step.induct)
  case (keyDown g s e clk)
  then show ?case by (simp add: onKeyDown_target_change)
next
  case (toggle s)
  then show ?case by (simp add: toggleRunning_def)
qed (auto simp: setModeAndReset_def resetAll_def setDigitsSettingsAndReset_def
      enableAllInCurrentMode_def disableAllInCurrentMode_def setEnabledForItemInCurrentMode_def
      Let_def split: if_splits)

lemma digitsAlmost_eq: "digitsAlmost = digitsStart\<lparr>typed := ''10'', progress := ''10''\<rparr>"
  unfolding digitsAlmost_def
  by (subst onKeyDown_digits)
    (simp_all add: digitsTyped_eq digitsStart_fields printableKey_plainKey expectedChar_def)

lemma reachable_digitsAlmost: "reachable digitsAlmost"
  unfolding digitsAlmost_def
  by (rule reachable.after [OF reachable_digitsTyped step.keyDown [OF wf_rng_zero]])

lemma digitsSettings_digitsStart: "digitsSettings digitsStart = initialDigitsSettings"
  by (simp add: digitsStart_def setModeAndReset_def singleStart_def initialTrainer_def)

lemma generate_half:
  "generateDigitsTarget initialDigitsSettings (constRng (1 / 2)) = ''55555''"
  by (simp add: initialDigitsSettings_def gen_eval)

text \<open>
  Claim C10. In every reachable state in digits mode, typed equals progress, and so it
  is after every transition that ends in digits mode. For a key event that the handler
  takes up in digits mode (running, non-empty target, no modifier held): the expected
  key sets both buffers to progress followed by the key, or, when that completes the
  target, a new target is generated and both are empty; any other one-character key
  changes neither buffer, so typed never records it; Backspace replaces each buffer by
  itself without its last character, one character shorter when it was not empty.
  Every transition that changes the target leaves both buffers empty, and so do
  \<open>resetQuestion\<close>, \<open>nextQuestion\<close> in digits mode, a mode change, a full reset and a
  settings edit, whether or not the new target differs from the old one.
\<close>

theorem digits_typed_is_progress:
  assumes "reachable s"
  shows "(mode s = Digits \<longrightarrow> typed s = progress s)
       \<and> (\<forall>s'. step s s' \<and> mode s' = Digits \<longrightarrow> typed s' = progress s')
       \<and> (\<forall>e g clk. isRunning s \<and> target s \<noteq> [] \<and> mode s = Digits \<and> printableKey e
             \<and> key e = expectedChar (target s) (progress s) \<and> progress s @ key e \<noteq> target s
             \<longrightarrow> typed (onKeyDown e g clk s) = progress s @ key e
               \<and> progress (onKeyDown e g clk s) = progress s @ key e
               \<and> target (onKeyDown e g clk s) = target s)
       \<and> (\<forall>e g clk. isRunning s \<and> target s \<noteq> [] \<and> mode s = Digits \<and> printableKey e
             \<and> key e = expectedChar (target s) (progress s) \<and> progress s @ key e = target s
             \<longrightarrow> typed (onKeyDown e g clk s) = []
               \<and> progress (onKeyDown e g clk s) = []
               \<and> target (onKeyDown e g clk s) = generateDigitsTarget (digitsSettings s) g)
       \<and> (\<forall>e g clk. isRunning s \<and> target s \<noteq> [] \<and> mode s = Digits \<and> printableKey e
             \<and> key e \<noteq> expectedChar (target s) (progress s)
             \<longrightarrow> typed (onKeyDown e g clk s) = typed s \<and> progress (onKeyDown e g clk s) = progress s)
       \<and> (\<forall>e g clk. isRunning s \<and> target s \<noteq> [] \<and> mode s = Digits \<and> backspaceKey e
             \<longrightarrow> typed (onKeyDown e g clk s) = butlast (typed s)
               \<and> progress (onKeyDown e g clk s) = butlast (progress s)
               \<and> (typed s \<noteq> [] \<longrightarrow> length (typed (onKeyDown e g clk s)) + 1 = length (typed s))
               \<and> (progress s \<noteq> [] \<longrightarrow>
                    length (progress (onKeyDown e g clk s)) + 1 = length (progress s)))
       \<and> (\<forall>s'. step s s' \<and> target s' \<noteq> target s \<longrightarrow> typed s' = [] \<and> progress s' = [])
       \<and> (\<forall>m ov g clk. typed (resetQuestion m ov g clk s) = []
             \<and> progress (resetQuestion m ov g clk s) = [])
       \<and> (\<forall>g clk. mode s = Digits \<longrightarrow>
             typed (nextQuestion g clk s) = [] \<and> progress (nextQuestion g clk s) = []
             \<and> target (nextQuestion g clk s) = generateDigitsTarget (digitsSettings s) g)
       \<and> (\<forall>m g clk. typed (setModeAndReset m g clk s) = []
             \<and> progress (setModeAndReset m g clk s) = [])
       \<and> (\<forall>g clk. typed (resetAll g clk s) = [] \<and> progress (resetAll g clk s) = [])
       \<and> (\<forall>next g clk. typed (setDigitsSettingsAndReset next g clk s) = []
             \<and> progress (setDigitsSettingsAndReset next g clk s) = [])"
proof -
  have a: "mode t = Digits \<longrightarrow> typed t = progress t" if "reachable t" for t
    using reachable_invariant [OF that] by (simp add: invariant_def)
  have b: "reachable s'" if "step s s'" for s'
    using assms that by (rule reachable.after)
  have 2: "\<forall>s'. step s s' \<and> mode s' = Digits \<longrightarrow> typed s' = progress s'"
    using a b by blast
  have 3: "typed (onKeyDown e g clk s) = progress s @ key e
               \<and> progress (onKeyDown e g clk s) = progress s @ key e
               \<and> target (onKeyDown e g clk s) = target s"
    if "isRunning s \<and> target s \<noteq> [] \<and> mode s = Digits \<and> printableKey e
             \<and> key e = expectedChar (target s) (progress s) \<and> progress s @ key e \<noteq> target s"
    for e g clk
  proof -
    have h: "isRunning s" "target s \<noteq> []" "mode s = Digits" "printableKey e"
      using that by blast+
    have k: "key e = expectedChar (target s) (progress s)" "progress s @ key e \<noteq> target s"
      using that by blast+
    show ?thesis unfolding onKeyDown_digits [OF h] using k by simp
  qed
  have 4: "typed (onKeyDown e g clk s) = []
               \<and> progress (onKeyDown e g clk s) = []
               \<and> target (onKeyDown e g clk s) = generateDigitsTarget (digitsSettings s) g"
    if h: "isRunning s \<and> target s \<noteq> [] \<and> mode s = Digits \<and> printableKey e
             \<and> key e = expectedChar (target s) (progress s) \<and> progress s @ key e = target s"
    for e g clk
  proof -
    let ?s1 = "s\<lparr>typed := progress s @ key e, progress := progress s @ key e\<rparr>"
    have hs: "isRunning s" "target s \<noteq> []" "mode s = Digits" "printableKey e"
      using h by blast+
    have k: "key e = expectedChar (target s) (progress s)" "progress s @ key e = target s"
      using h by blast+
    have m: "mode ?s1 = Digits \<or> pool ?s1 \<noteq> []" using hs(3) by simp
    have d: "typed (completion g clk ?s1) = []" "progress (completion g clk ?s1) = []"
      "target (completion g clk ?s1) = generateDigitsTarget (digitsSettings s) g"
      using hs(3) by (simp_all add: completion_draws [OF m])
    have "onKeyDown e g clk s = completion g clk ?s1"
      unfolding onKeyDown_digits [OF hs] using k by simp
    then show ?thesis using d by (simp only:)
  qed
  have 5: "typed (onKeyDown e g clk s) = typed s \<and> progress (onKeyDown e g clk s) = progress s"
    if "isRunning s \<and> target s \<noteq> [] \<and> mode s = Digits \<and> printableKey e
             \<and> key e \<noteq> expectedChar (target s) (progress s)" for e g clk
    using that by (simp add: onKeyDown_digits)
  have 6: "typed (onKeyDown e g clk s) = butlast (typed s)
               \<and> progress (onKeyDown e g clk s) = butlast (progress s)
               \<and> (typed s \<noteq> [] \<longrightarrow> length (typed (onKeyDown e g clk s)) + 1 = length (typed s))
               \<and> (progress s \<noteq> [] \<longrightarrow>
                    length (progress (onKeyDown e g clk s)) + 1 = length (progress s))"
    if "isRunning s \<and> target s \<noteq> [] \<and> mode s = Digits \<and> backspaceKey e" for e g clk
    using that by (simp add: onKeyDown_backspace)
  have 7: "\<forall>s'. step s s' \<and> target s' \<noteq> target s \<longrightarrow> typed s' = [] \<and> progress s' = []"
    using step_target_change by blast
  have 9: "typed (nextQuestion g clk s) = [] \<and> progress (nextQuestion g clk s) = []
             \<and> target (nextQuestion g clk s) = generateDigitsTarget (digitsSettings s) g"
    if "mode s = Digits" for g clk
    using that by (simp add: nextQuestion_draws)
  have 10: "typed (setModeAndReset m g clk s) = [] \<and> progress (setModeAndReset m g clk s) = []"
    for m g clk by (simp add: setModeAndReset_def)
  have 11: "typed (resetAll g clk s) = [] \<and> progress (resetAll g clk s) = []" for g clk
    by (simp add: resetAll_def)
  have 12: "typed (setDigitsSettingsAndReset n g clk s) = []
     \<and> progress (setDigitsSettingsAndReset n g clk s) = []" for n g clk
    by (simp add: setDigitsSettingsAndReset_def)
  have c1: "(mode s = Digits \<longrightarrow> typed s = progress s)"
    using a [OF assms] .
  note c2 = 2
  have c3: "(\<forall>e g clk. isRunning s \<and> target s \<noteq> [] \<and> mode s = Digits \<and> printableKey e
             \<and> key e = expectedChar (target s) (progress s) \<and> progress s @ key e \<noteq> target s
             \<longrightarrow> typed (onKeyDown e g clk s) = progress s @ key e
               \<and> progress (onKeyDown e g clk s) = progress s @ key e
               \<and> target (onKeyDown e g clk s) = target s)"
    using 3 by blast
  have c4: "(\<forall>e g clk. isRunning s \<and> target s \<noteq> [] \<and> mode s = Digits \<and> printableKey e
             \<and> key e = expectedChar (target s) (progress s) \<and> progress s @ key e = target s
             \<longrightarrow> typed (onKeyDown e g clk s) = []
               \<and> progress (onKeyDown e g clk s) = []
               \<and> target (onKeyDown e g clk s) = generateDigitsTarget (digitsSettings s) g)"
    using 4 by blast
  have c5: "(\<forall>e g clk. isRunning s \<and> target s \<noteq> [] \<and> mode s = Digits \<and> printableKey e
             \<and> key e \<noteq> expectedChar (target s) (progress s)
             \<longrightarrow> typed (onKeyDown e g clk s) = typed s \<and> progress (onKeyDown e g clk s) = progress s)"
    using 5 by blast
  have c6: "(\<forall>e g clk. isRunning s \<and> target s \<noteq> [] \<and> mode s = Digits \<and> backspaceKey e
             \<longrightarrow> typed (onKeyDown e g clk s) = butlast (typed s)
               \<and> progress (onKeyDown e g clk s) = butlast (progress s)
               \<and> (typed s \<noteq> [] \<longrightarrow> length (typed (onKeyDown e g clk s)) + 1 = length (typed s))
               \<and> (progress s \<noteq> [] \<longrightarrow>
                    length (progress (onKeyDown e g clk s)) + 1 = length (progress s)))"
    using 6 by blast
  note c7 = 7
  have c8: "(\<forall>m ov g clk. typed (resetQuestion m ov g clk s) = []
             \<and> progress (resetQuestion m ov g clk s) = [])"
    by simp
  have c9: "(\<forall>g clk. mode s = Digits \<longrightarrow>
             typed (nextQuestion g clk s) = [] \<and> progress (nextQuestion g clk s) = []
             \<and> target (nextQuestion g clk s) = generateDigitsTarget (digitsSettings s) g)"
    using 9 by blast
  have c10: "(\<forall>m g clk. typed (setModeAndReset m g clk s) = []
             \<and> progress (setModeAndReset m g clk s) = [])"
    using 10 by blast
  have c11: "(\<forall>g clk. typed (resetAll g clk s) = [] \<and> progress (resetAll g clk s) = [])"
    using 11 by blast
  have c12: "(\<forall>next g clk. typed (setDigitsSettingsAndReset next g clk s) = []
             \<and> progress (setDigitsSettingsAndReset next g clk s) = [])"
    using 12 by blast
  show ?thesis by (intro conjI c1 c2 c3 c4 c5 c6 c7 c8 c9 c10 c11 c12)
qed

theorem digits_typed_is_progress_witness:
  "reachable digitsTyped \<and> mode digitsTyped = Digits \<and> isRunning digitsTyped
   \<and> target digitsTyped = ''100'' \<and> typed digitsTyped = ''1'' \<and> progress digitsTyped = ''1''
   \<and> backspaceKey (plainKey ''Backspace'')
   \<and> typed (onKeyDown (plainKey ''Backspace'') (constRng 0) (constRng 0) digitsTyped) = []
   \<and> progress (onKeyDown (plainKey ''Backspace'') (constRng 0) (constRng 0) digitsTyped) = []
   \<and> length (typed (onKeyDown (plainKey ''Backspace'') (constRng 0) (constRng 0) digitsTyped)) + 1
       = length (typed digitsTyped)
   \<and> printableKey (plainKey ''0'')
   \<and> expectedChar (target digitsTyped) (progress digitsTyped) = ''0''
   \<and> typed (onKeyDown (plainKey ''0'') (constRng 0) (constRng 0) digitsTyped) = ''10''
   \<and> progress (onKeyDown (plainKey ''0'') (constRng 0) (constRng 0) digitsTyped) = ''10''
   \<and> printableKey (plainKey ''9'')
   \<and> typed (onKeyDown (plainKey ''9'') (constRng 0) (constRng 0) digitsTyped) = ''1''
   \<and> progress (onKeyDown (plainKey ''9'') (constRng 0) (constRng 0) digitsTyped) = ''1''
   \<and> reachable digitsAlmost \<and> mode digitsAlmost = Digits \<and> isRunning digitsAlmost
   \<and> target digitsAlmost = ''100'' \<and> progress digitsAlmost = ''10''
   \<and> wf_rng (constRng (1 / 2))
   \<and> step digitsAlmost (onKeyDown (plainKey ''0'') (constRng (1 / 2)) (constRng 0) digitsAlmost)
   \<and> target (onKeyDown (plainKey ''0'') (constRng (1 / 2)) (constRng 0) digitsAlmost) = ''55555''
   \<and> typed (onKeyDown (plainKey ''0'') (constRng (1 / 2)) (constRng 0) digitsAlmost) = []
   \<and> progress (onKeyDown (plainKey ''0'') (constRng (1 / 2)) (constRng 0) digitsAlmost) = []"
proof -
  note t = digits_typed_is_progress [OF reachable_digitsTyped]
  note u = digits_typed_is_progress [OF reachable_digitsAlmost]
  let ?b = "onKeyDown (plainKey ''Backspace'') (constRng 0) (constRng 0) digitsTyped"
  let ?k = "onKeyDown (plainKey ''0'') (constRng 0) (constRng 0) digitsTyped"
  let ?m = "onKeyDown (plainKey ''9'') (constRng 0) (constRng 0) digitsTyped"
  let ?c = "onKeyDown (plainKey ''0'') (constRng (1 / 2)) (constRng 0) digitsAlmost"
  have f: "mode digitsTyped = Digits" "typed digitsTyped = ''1''" "progress digitsTyped = ''1''"
    "isRunning digitsTyped" "target digitsTyped = ''100''"
    by (simp_all add: digitsTyped_eq digitsStart_fields)
  have f2: "mode digitsAlmost = Digits" "typed digitsAlmost = ''10''"
    "progress digitsAlmost = ''10''" "isRunning digitsAlmost" "target digitsAlmost = ''100''"
    "digitsSettings digitsAlmost = initialDigitsSettings"
    by (simp_all add: digitsAlmost_eq digitsStart_fields digitsSettings_digitsStart)
  have w: "wf_rng (constRng (1 / 2))" by (simp add: wf_rng_constRng)
  have st: "step digitsAlmost ?c" by (rule step.keyDown [OF w])
  have ex: "expectedChar (target digitsTyped) (progress digitsTyped) = ''0''"
    by (simp add: f expectedChar_def)
  have ex2: "expectedChar (target digitsAlmost) (progress digitsAlmost) = ''0''"
    by (simp add: f2 expectedChar_def)
  have pk: "printableKey (plainKey ''0'')" "printableKey (plainKey ''9'')"
    "backspaceKey (plainKey ''Backspace'')"
    by (simp_all add: printableKey_plainKey backspaceKey_plainKey)
  note c2 = conjunct2
  note t3 = t [THEN c2, THEN c2, THEN conjunct1, rule_format]
  note t5 = t [THEN c2, THEN c2, THEN c2, THEN c2, THEN conjunct1, rule_format]
  note t6 = t [THEN c2, THEN c2, THEN c2, THEN c2, THEN c2, THEN conjunct1, rule_format]
  note u4 = u [THEN c2, THEN c2, THEN c2, THEN conjunct1, rule_format]
  have 1: "typed ?b = butlast (typed digitsTyped) \<and> progress ?b = butlast (progress digitsTyped)"
    using t6 [of "plainKey ''Backspace''" "constRng 0" "constRng 0"] by (simp add: f pk)
  have 2: "typed ?k = progress digitsTyped @ key (plainKey ''0'')
      \<and> progress ?k = progress digitsTyped @ key (plainKey ''0'')"
    using t3 [of "plainKey ''0''" "constRng 0" "constRng 0"] ex by (simp add: f pk)
  have 3: "typed ?m = typed digitsTyped \<and> progress ?m = progress digitsTyped"
    using t5 [of "plainKey ''9''" "constRng 0" "constRng 0"] ex by (simp add: f pk)
  have 4: "typed ?c = [] \<and> progress ?c = []
      \<and> target ?c = generateDigitsTarget (digitsSettings digitsAlmost) (constRng (1 / 2))"
    using u4 [of "plainKey ''0''" "constRng (1 / 2)" "constRng 0"] ex2 by (simp add: f2 pk)
  show ?thesis
    using 1 2 3 4 st w ex pk
    by (simp add: reachable_digitsTyped reachable_digitsAlmost f f2 generate_half)
qed

section \<open>The statistics\<close>

lemma mset_insertBy: "mset (insertBy cmp x ys) = add_mset x (mset ys)"
  by (induction ys) simp_all

lemma mset_sortBy: "mset (sortBy cmp xs) = mset xs"
  unfolding sortBy_def by (induction xs) (simp_all add: mset_insertBy)

lemma set_insertBy: "set (insertBy cmp x ys) = insert x (set ys)"
  using arg_cong [OF mset_insertBy, of set_mset cmp x ys] by simp

lemma rankedCmp_le:
  "(rankedCmp a b \<le> 0) = (acc a < acc b \<or> (acc a = acc b \<and> attempts b \<le> attempts a))"
  by (auto simp: rankedCmp_def)

lemma sorted_insertBy:
  assumes total: "\<And>a b. cmp a b \<le> 0 \<or> cmp b a \<le> 0"
    and trans: "\<And>a b c. cmp a b \<le> 0 \<Longrightarrow> cmp b c \<le> 0 \<Longrightarrow> cmp a c \<le> 0"
    and "sorted_wrt (\<lambda>a b. cmp a b \<le> 0) ys"
  shows "sorted_wrt (\<lambda>a b. cmp a b \<le> 0) (insertBy cmp x ys)"
  using assms(3)
proof (induction ys)
  case Nil
  then show ?case by simp
next
  case (Cons y ys)
  show ?case
  proof (cases "cmp x y \<le> 0")
    case True
    have "cmp x z \<le> 0" if "z \<in> set ys" for z
      using Cons.prems that trans [OF True, of z] by auto
    then show ?thesis using True Cons.prems by auto
  next
    case False
    then have "cmp y x \<le> 0" using total [of x y] by simp
    then show ?thesis using False Cons by (auto simp: set_insertBy)
  qed
qed

lemma sorted_sortBy:
  assumes "\<And>a b. cmp a b \<le> 0 \<or> cmp b a \<le> 0"
    and "\<And>a b c. cmp a b \<le> 0 \<Longrightarrow> cmp b c \<le> 0 \<Longrightarrow> cmp a c \<le> 0"
  shows "sorted_wrt (\<lambda>a b. cmp a b \<le> 0) (sortBy cmp xs)"
  unfolding sortBy_def
  by (induction xs) (simp_all add: sorted_insertBy [OF assms])

lemma sorted_sortBy_rankedCmp:
  "sorted_wrt (\<lambda>a b. acc a < acc b \<or> (acc a = acc b \<and> attempts b \<le> attempts a))
     (sortBy rankedCmp rows)"
proof -
  have "sorted_wrt (\<lambda>a b. rankedCmp a b \<le> 0) (sortBy rankedCmp rows)"
  proof (rule sorted_sortBy)
    show "rankedCmp a b \<le> 0 \<or> rankedCmp b a \<le> 0" for a b
      unfolding rankedCmp_le by auto
    show "rankedCmp a c \<le> 0" if "rankedCmp a b \<le> 0" "rankedCmp b c \<le> 0" for a b c
      using that unfolding rankedCmp_le by auto
  qed
  then show ?thesis by (simp add: rankedCmp_le)
qed

lemma entries_attempted:
  assumes "statsOk m" "entriesOf m es"
  shows "filter (\<lambda>e. 1 \<le> attempts (snd e)) es = es"
proof -
  have "1 \<le> attempts (snd e)" if "e \<in> set es" for e
  proof -
    obtain k st where e: "e = (k, st)" by (cases e)
    have "distinct (map fst es)" using assms(2) by (simp add: entriesOf_def)
    then have "map_of es k = Some st" using that unfolding e by (rule map_of_is_SomeI)
    then have "m k = Some st" using assms(2) by (simp add: entriesOf_def)
    then show ?thesis using assms(1) by (simp add: statsOk_def e)
  qed
  then show ?thesis by (simp add: filter_id_conv)
qed

text \<open>
  Claim C8. Let \<open>es\<close> enumerate the statistics of a reachable state. The row of each
  item has accuracy correct / attempts * 100 (0 with no attempt) and average duration
  accumulated duration / correct, which is undefined (\<open>None\<close>) when correct is 0, so no
  duration is divided by zero. The ranked view is the first 10 of a list that holds
  exactly the rows of the items with at least one attempt (which are all items), in
  order of accuracy ascending, rows of equal accuracy in order of attempts
  descending. The overall accuracy is total correct / total attempts * 100, and 0
  with no attempt. Numbers are reals here: the rounding of doubles is not modelled.
\<close>

theorem ranked_view:
  assumes "reachable s" "entriesOf (statsByItem s) es"
  shows "(\<forall>e\<in>set es.
            acc (rankedRow e) =
              (if attempts (snd e) = 0 then 0
               else real (correct (snd e)) / real (attempts (snd e)) * 100)
          \<and> avg (rankedRow e) =
              (if correct (snd e) = 0 then None
               else Some (totalMs (snd e) / real (correct (snd e))))
          \<and> item (rankedRow e) = fst e
          \<and> attempts (rankedRow e) = attempts (snd e)
          \<and> correct (rankedRow e) = correct (snd e)
          \<and> totalMs (rankedRow e) = totalMs (snd e))
       \<and> (\<exists>rows. mset rows = mset (map rankedRow (filter (\<lambda>e. 1 \<le> attempts (snd e)) es))
             \<and> sorted_wrt (\<lambda>a b. acc a < acc b \<or> (acc a = acc b \<and> attempts b \<le> attempts a)) rows
             \<and> ranked es = take 10 rows)
       \<and> accuracy s =
            (if totalAttempts s = 0 then 0
             else real (totalCorrect s) / real (totalAttempts s) * 100)"
proof -
  have ok: "statsOk (statsByItem s)"
    using reachable_invariant [OF assms(1)] by (rule invariant_statsOk)
  have f: "filter (\<lambda>e. 1 \<le> attempts (snd e)) es = es"
    using ok assms(2) by (rule entries_attempted)
  let ?rows = "sortBy rankedCmp (map rankedRow es)"
  have "mset ?rows = mset (map rankedRow (filter (\<lambda>e. 1 \<le> attempts (snd e)) es))"
    unfolding f by (rule mset_sortBy)
  moreover have "sorted_wrt (\<lambda>a b. acc a < acc b \<or> (acc a = acc b \<and> attempts b \<le> attempts a)) ?rows"
    by (rule sorted_sortBy_rankedCmp)
  moreover have "ranked es = take 10 ?rows" by (simp add: ranked_def)
  ultimately have 2: "\<exists>rows. mset rows = mset (map rankedRow (filter (\<lambda>e. 1 \<le> attempts (snd e)) es))
             \<and> sorted_wrt (\<lambda>a b. acc a < acc b \<or> (acc a = acc b \<and> attempts b \<le> attempts a)) rows
             \<and> ranked es = take 10 rows"
    by blast
  show ?thesis
    using 2 by (simp add: rankedRow_def Let_def accuracy_def)
qed

theorem ranked_view_witness:
  "reachable singleSolved
   \<and> entriesOf (statsByItem singleSolved) [(''('', \<lparr>attempts = 4, correct = 1, totalMs = 500\<rparr>)]
   \<and> ranked [(''('', \<lparr>attempts = 4, correct = 1, totalMs = 500\<rparr>)]
       = [\<lparr>attempts = 4, correct = 1, totalMs = 500, item = ''('', acc = 25, avg = Some 500\<rparr>]
   \<and> accuracy singleSolved = 25
   \<and> rankedRow (''x'', \<lparr>attempts = 2, correct = 0, totalMs = 0\<rparr>)
       = \<lparr>attempts = 2, correct = 0, totalMs = 0, item = ''x'', acc = 0, avg = None\<rparr>"
  using ranked_view [OF reachable_singleSolved,
      of "[(''('', \<lparr>attempts = 4, correct = 1, totalMs = 500\<rparr>)]"]
  by (simp add: reachable_singleSolved entriesOf_def singleSolved_fields ranked_def sortBy_def
      rankedRow_def accuracy_def)

end
